theory Spec2Isabelle
  imports Complex_Main
begin

section \<open>Python values used by \<open>detect_black.py\<close>\<close>

subsection \<open>Exceptions\<close>

text \<open>
  The exceptions the script can meet.  \<open>KeyboardInterrupt\<close> is the operator's interrupt
  signal.  \<open>SystemExit\<close> is raised by \<open>sys.exit(message)\<close> and ends the program with
  the message on standard error and exit status 1; it carries which of the script's four
  messages was given: ffmpeg not found, ffprobe not found, the duration could not be
  obtained, or the run was interrupted by the user.
\<close>

datatype message = NoFfmpeg | NoFfprobe | NoDuration | Interrupted

datatype pyerror =
    ValueError
  | OverflowError
  | ZeroDivisionError
  | IndexError
  | OSError
  | KeyboardInterrupt
  | SystemExit message

text \<open>Sequencing of computations that may raise: the first exception wins.\<close>

definition bind :: "pyerror + 'a \<Rightarrow> ('a \<Rightarrow> pyerror + 'b) \<Rightarrow> pyerror + 'b" where
  "bind m f = (case m of Inl e \<Rightarrow> Inl e | Inr v \<Rightarrow> f v)"

subsection \<open>Floats: IEEE 754 binary64 with round-to-nearest, ties-to-even\<close>

text \<open>
  A Python \<open>float\<close> is a binary64 number.  A finite one is modelled by the rational it
  denotes; the two infinities and NaN are separate values.  The two zeros are identified:
  they compare equal, \<open>int\<close> maps both to \<open>0\<close>, and a division by either raises, so the
  script cannot tell them apart in anything that is modelled here.
\<close>

datatype pyfloat = Finite rat | Inf bool | NaN

text \<open>
  \<open>expo x\<close> is \<open>\<lfloor>log\<^sub>2 x\<rfloor>\<close> for \<open>x > 0\<close>, found by halving or doubling.
\<close>

function log2_up :: "rat \<Rightarrow> nat" where
  "log2_up x = (if x < 2 then 0 else Suc (log2_up (x / 2)))"
  by pat_completeness auto
termination
proof (relation "measure (\<lambda>x. nat \<lfloor>x\<rfloor>)")
  show "wf (measure (\<lambda>x::rat. nat \<lfloor>x\<rfloor>))" by simp
next
  fix x :: rat
  assume "\<not> x < 2"
  then have "x / 2 \<le> x - 1" by simp
  then have "\<lfloor>x / 2\<rfloor> \<le> \<lfloor>x - 1\<rfloor>" by (rule floor_mono)
  moreover have "0 < \<lfloor>x\<rfloor>" using \<open>\<not> x < 2\<close> by linarith
  ultimately show "(x / 2, x) \<in> measure (\<lambda>x. nat \<lfloor>x\<rfloor>)" by simp
qed

function log2_down :: "rat \<Rightarrow> nat" where
  "log2_down x = (if x \<le> 0 \<or> 1 \<le> x then 0 else Suc (log2_down (2 * x)))"
  by pat_completeness auto
termination
proof (relation "measure (\<lambda>x. nat \<lfloor>1 / x\<rfloor>)")
  show "wf (measure (\<lambda>x::rat. nat \<lfloor>1 / x\<rfloor>))" by simp
next
  fix x :: rat
  assume "\<not> (x \<le> 0 \<or> 1 \<le> x)"
  then have x: "0 < x" "x < 1" by simp_all
  then have one: "1 < 1 / x" by simp
  have "1 / (2 * x) = (1 / x) / 2" by simp
  also have "\<dots> \<le> 1 / x - 1 / 2" using one by simp
  finally have "\<lfloor>1 / (2 * x)\<rfloor> \<le> \<lfloor>1 / x - 1 / 2\<rfloor>" by (rule floor_mono)
  moreover have "\<lfloor>1 / x - 1 / 2\<rfloor> \<le> \<lfloor>1 / x\<rfloor>" by (rule floor_mono) simp
  moreover have "1 \<le> \<lfloor>1 / x\<rfloor>" using one by linarith
  moreover have "\<lfloor>1 / (2 * x)\<rfloor> \<noteq> \<lfloor>1 / x\<rfloor>"
  proof
    assume eq: "\<lfloor>1 / (2 * x)\<rfloor> = \<lfloor>1 / x\<rfloor>"
    have "of_int \<lfloor>1 / x\<rfloor> \<le> 1 / (2 * x)" using eq of_int_floor_le [of "1 / (2 * x)"] by simp
    moreover have "1 / x < of_int \<lfloor>1 / x\<rfloor> + 1" by linarith
    moreover have "1 / (2 * x) = (1 / x) / 2" by simp
    ultimately have "1 / x < 2" using one by linarith
    then have "\<lfloor>1 / x\<rfloor> = 1" using one by linarith
    moreover have "1 / (2 * x) < 1" using \<open>1 / x < 2\<close> by simp
    then have "\<lfloor>1 / (2 * x)\<rfloor> \<le> 0" by linarith
    ultimately show False using eq by simp
  qed
  ultimately show "(2 * x, x) \<in> measure (\<lambda>x. nat \<lfloor>1 / x\<rfloor>)" by simp
qed

declare log2_up.simps [simp del] log2_down.simps [simp del]

definition expo :: "rat \<Rightarrow> int" where
  "expo x = (if 1 \<le> x then int (log2_up x) else - int (log2_down x))"

text \<open>
  The spacing of the binary64 numbers around \<open>x\<close>: 53 significant bits, and the fixed
  spacing \<open>2\<^sup>-\<^sup>1\<^sup>0\<^sup>7\<^sup>4\<close> of the subnormal range below \<open>2\<^sup>-\<^sup>1\<^sup>0\<^sup>2\<^sup>2\<close>.
\<close>

definition quantum :: "rat \<Rightarrow> rat" where
  "quantum x = 2 powi (max (expo \<bar>x\<bar>) (- 1022) - 52)"

definition round_half_even :: "rat \<Rightarrow> int" where
  "round_half_even x =
     (let f = \<lfloor>x\<rfloor>; d = x - of_int f
      in if d < 1 / 2 then f else if 1 / 2 < d then f + 1 else if even f then f else f + 1)"

text \<open>
  Rounding of an exact result to binary64; a result beyond the largest finite number
  becomes an infinity.
\<close>

definition round_double :: "rat \<Rightarrow> pyfloat" where
  "round_double x =
     (if x = 0 then Finite 0
      else let q = quantum x; v = of_int (round_half_even (x / q)) * q
           in if of_int (2 ^ 1024) \<le> \<bar>v\<bar> then Inf (0 < x) else Finite v)"

text \<open>Arithmetic: \<open>+\<close>, \<open>-\<close>, \<open>*\<close> never raise; \<open>/\<close> raises on a zero divisor.\<close>

fun fneg :: "pyfloat \<Rightarrow> pyfloat" where
  "fneg (Finite a) = Finite (- a)"
| "fneg (Inf s) = Inf (\<not> s)"
| "fneg NaN = NaN"

fun fadd :: "pyfloat \<Rightarrow> pyfloat \<Rightarrow> pyfloat" where
  "fadd (Finite a) (Finite b) = round_double (a + b)"
| "fadd (Finite a) (Inf s) = Inf s"
| "fadd (Inf s) (Finite b) = Inf s"
| "fadd (Inf s) (Inf t) = (if s = t then Inf s else NaN)"
| "fadd NaN y = NaN"
| "fadd x NaN = NaN"

definition fsub :: "pyfloat \<Rightarrow> pyfloat \<Rightarrow> pyfloat" where
  "fsub x y = fadd x (fneg y)"

fun fmul :: "pyfloat \<Rightarrow> pyfloat \<Rightarrow> pyfloat" where
  "fmul (Finite a) (Finite b) = round_double (a * b)"
| "fmul (Finite a) (Inf s) = (if a = 0 then NaN else Inf (s = (0 < a)))"
| "fmul (Inf s) (Finite b) = (if b = 0 then NaN else Inf (s = (0 < b)))"
| "fmul (Inf s) (Inf t) = Inf (s = t)"
| "fmul NaN y = NaN"
| "fmul x NaN = NaN"

fun fdiv :: "pyfloat \<Rightarrow> pyfloat \<Rightarrow> pyerror + pyfloat" where
  "fdiv x (Finite b) =
     (if b = 0 then Inl ZeroDivisionError
      else case x of
             Finite a \<Rightarrow> Inr (round_double (a / b))
           | Inf s \<Rightarrow> Inr (Inf (s = (0 < b)))
           | NaN \<Rightarrow> Inr NaN)"
| "fdiv (Finite a) (Inf t) = Inr (Finite 0)"
| "fdiv (Inf s) (Inf t) = Inr NaN"
| "fdiv NaN (Inf t) = Inr NaN"
| "fdiv x NaN = Inr NaN"

text \<open>Comparison with zero, as used below (\<open>False\<close> on NaN, as in IEEE).\<close>

fun fis_neg :: "pyfloat \<Rightarrow> bool" where
  "fis_neg (Finite a) = (a < 0)"
| "fis_neg (Inf s) = (\<not> s)"
| "fis_neg NaN = False"

fun fis_zero :: "pyfloat \<Rightarrow> bool" where
  "fis_zero (Finite a) = (a = 0)"
| "fis_zero x = False"

text \<open>
  C's \<open>fmod\<close>: the exact remainder with the sign of the dividend, and \<open>floor\<close>.
\<close>

fun c_fmod :: "pyfloat \<Rightarrow> pyfloat \<Rightarrow> pyfloat" where
  "c_fmod (Finite a) (Finite b) =
     (if b = 0 then NaN
      else let t = a / b; n = (if t < 0 then \<lceil>t\<rceil> else \<lfloor>t\<rfloor>) in Finite (a - of_int n * b))"
| "c_fmod (Finite a) (Inf t) = Finite a"
| "c_fmod x y = NaN"

fun c_floor :: "pyfloat \<Rightarrow> pyfloat" where
  "c_floor (Finite a) = Finite (of_int \<lfloor>a\<rfloor>)"
| "c_floor x = x"

text \<open>
  The remainder \<open>x % y\<close> and the floor division \<open>x // y\<close> of two floats, as CPython
  computes them (\<open>float_rem\<close> and \<open>_float_div_mod\<close> in \<open>Objects/floatobject.c\<close>):
  the remainder takes the sign of the divisor, and the quotient \<open>(x - mod) / y\<close> is
  snapped to the nearest integral value.
\<close>

definition float_mod :: "pyfloat \<Rightarrow> pyfloat \<Rightarrow> pyerror + pyfloat" where
  "float_mod vx wx =
     (if fis_zero wx then Inl ZeroDivisionError
      else let m = c_fmod vx wx
           in if fis_zero m then Inr (Finite 0)
              else if fis_neg wx \<noteq> fis_neg m then Inr (fadd m wx)
              else Inr m)"

definition float_floordiv :: "pyfloat \<Rightarrow> pyfloat \<Rightarrow> pyerror + pyfloat" where
  "float_floordiv vx wx =
     (if fis_zero wx then Inl ZeroDivisionError
      else let m = c_fmod vx wx
           in bind (fdiv (fsub vx m) wx) (\<lambda>d0.
              let d = (if \<not> fis_zero m \<and> fis_neg wx \<noteq> fis_neg m
                       then fsub d0 (Finite 1) else d0)
              in if fis_zero d then Inr (Finite 0)
                 else let fl = c_floor d
                      in case fsub d fl of
                           Finite r \<Rightarrow> Inr (if 1 / 2 < r then fadd fl (Finite 1) else fl)
                         | Inf s \<Rightarrow> Inr (if s then fadd fl (Finite 1) else fl)
                         | NaN \<Rightarrow> Inr fl))"

text \<open>
  \<open>int(x)\<close> truncates toward zero and raises on NaN and on an infinity; an \<open>int\<close>
  operand of a float operation is converted to the nearest float, which raises when it
  is out of range.
\<close>

fun int_of_float :: "pyfloat \<Rightarrow> pyerror + int" where
  "int_of_float (Finite a) = Inr (if a < 0 then \<lceil>a\<rceil> else \<lfloor>a\<rfloor>)"
| "int_of_float (Inf s) = Inl OverflowError"
| "int_of_float NaN = Inl ValueError"

definition float_of_int :: "int \<Rightarrow> pyerror + pyfloat" where
  "float_of_int i =
     (case round_double (of_int i) of
        Finite a \<Rightarrow> Inr (Finite a)
      | _ \<Rightarrow> Inl OverflowError)"

text \<open>The sign of a float: positive or zero, NaN excluded.\<close>

fun fnonneg :: "pyfloat \<Rightarrow> bool" where
  "fnonneg (Finite a) = (0 \<le> a)"
| "fnonneg (Inf s) = s"
| "fnonneg NaN = False"

subsection \<open>Decimal digits and the format specification \<open>0w\<close>\<close>

definition digit_char :: "int \<Rightarrow> char" where
  "digit_char d = ''0123456789'' ! nat d"

text \<open>The decimal digits of an integer \<open>n \<ge> 0\<close>.\<close>

function digits_of_int :: "int \<Rightarrow> string" where
  "digits_of_int n =
     (if n < 10 then [digit_char n] else digits_of_int (n div 10) @ [digit_char (n mod 10)])"
  by pat_completeness auto
termination
  by (relation "measure nat") auto

declare digits_of_int.simps [simp del]

text \<open>
  \<open>format(n, "0w")\<close> for an \<open>int\<close>: at least \<open>w\<close> characters, zeros inserted after the
  sign.
\<close>

definition format_int :: "nat \<Rightarrow> int \<Rightarrow> string" where
  "format_int w n =
     (let ds = digits_of_int \<bar>n\<bar>;
          sign = (if n < 0 then ''-'' else '''')
      in sign @ replicate (w - length sign - length ds) CHR ''0'' @ ds)"

subsection \<open>Strings\<close>

text \<open>
  A \<open>str\<close> is modelled as a list of 8-bit characters, so the model covers text whose
  code points are below 256; every character class below is given on those.

  \<open>is_space\<close> is \<open>str.isspace\<close>, which is also the class \<open>\s\<close> of a \<open>str\<close> pattern
  and the set that \<open>str.strip()\<close> removes; \<open>is_c_space\<close> is the smaller set that
  \<open>float\<close> drops around a number (the separators \<open>0x1C\<close> to \<open>0x1F\<close> are not in it);
  \<open>is_digit\<close> is \<open>\d\<close>.
\<close>

definition code :: "char \<Rightarrow> nat" where
  "code c = of_char c"

definition is_space :: "char \<Rightarrow> bool" where
  "is_space c =
     ((9 \<le> code c \<and> code c \<le> 13) \<or> (28 \<le> code c \<and> code c \<le> 32)
      \<or> code c = 133 \<or> code c = 160)"

definition is_c_space :: "char \<Rightarrow> bool" where
  "is_c_space c =
     ((9 \<le> code c \<and> code c \<le> 13) \<or> code c = 32 \<or> code c = 133 \<or> code c = 160)"

definition is_digit :: "char \<Rightarrow> bool" where
  "is_digit c = (48 \<le> code c \<and> code c \<le> 57)"

definition digit_val :: "char \<Rightarrow> int" where
  "digit_val c = of_char c - 48"

definition lower :: "char \<Rightarrow> char" where
  "lower c = (if 65 \<le> code c \<and> code c \<le> 90 then char_of (code c + 32) else c)"

definition strip_with :: "(char \<Rightarrow> bool) \<Rightarrow> string \<Rightarrow> string" where
  "strip_with sp s = rev (dropWhile sp (rev (dropWhile sp s)))"

definition strip :: "string \<Rightarrow> string" where
  "strip s = strip_with is_space s"

text \<open>\<open>s.split(sep)\<close> for a one-character separator: never an empty list.\<close>

fun split :: "char \<Rightarrow> string \<Rightarrow> string list" where
  "split sep [] = [[]]"
| "split sep (c # cs) =
     (if c = sep then [] # split sep cs
      else case split sep cs of
             p # ps \<Rightarrow> (c # p) # ps
           | [] \<Rightarrow> [[c]])"

text \<open>\<open>xs[i]\<close> for a literal index \<open>i \<ge> 0\<close>.\<close>

definition getitem :: "'a list \<Rightarrow> nat \<Rightarrow> pyerror + 'a" where
  "getitem xs i = (if i < length xs then Inr (xs ! i) else Inl IndexError)"

subsection \<open>\<open>float(s)\<close> for a string\<close>

text \<open>
  After the surrounding whitespace is dropped, \<open>float\<close> accepts, and nothing else,
  \<^verbatim>\<open>
  floatvalue  ::= [sign] (floatnumber | "inf" | "infinity" | "nan")   (any case)
  floatnumber ::= number [exponent]
  number      ::= [digitpart] "." digitpart | digitpart ["."]
  digitpart   ::= digit (["_"] digit)*
  exponent    ::= ("e" | "E") [sign] digitpart
  \<close>
  and returns the float nearest to the decimal value.  Anything else raises
  \<open>ValueError\<close>.
\<close>

definition int_of_digits :: "string \<Rightarrow> int" where
  "int_of_digits ds = foldl (\<lambda>a c. 10 * a + digit_val c) 0 ds"

text \<open>\<open>(["_"] digit)*\<close>: the digits read and the rest of the input.\<close>

fun digitpart_tail :: "string \<Rightarrow> string \<times> string" where
  "digitpart_tail [] = ([], [])"
| "digitpart_tail [c] = (if is_digit c then ([c], []) else ([], [c]))"
| "digitpart_tail (c # d # cs) =
     (if is_digit c then (case digitpart_tail (d # cs) of (ds, r) \<Rightarrow> (c # ds, r))
      else if c = CHR ''_'' \<and> is_digit d then (case digitpart_tail cs of (ds, r) \<Rightarrow> (d # ds, r))
      else ([], c # d # cs))"

fun digitpart :: "string \<Rightarrow> (string \<times> string) option" where
  "digitpart [] = None"
| "digitpart (c # cs) =
     (if is_digit c then (case digitpart_tail cs of (ds, r) \<Rightarrow> Some (c # ds, r)) else None)"

text \<open>An optional sign: whether it is a minus, and the rest.\<close>

fun opt_sign :: "string \<Rightarrow> bool \<times> string" where
  "opt_sign [] = (False, [])"
| "opt_sign (c # cs) =
     (if c = CHR ''-'' then (True, cs) else if c = CHR ''+'' then (False, cs) else (False, c # cs))"

text \<open>\<open>number\<close>: the digits before the point, those after it, and the rest.\<close>

definition number :: "string \<Rightarrow> (string \<times> string \<times> string) option" where
  "number s =
     (case digitpart s of
        Some (ip, r) \<Rightarrow>
          (case r of
             [] \<Rightarrow> Some (ip, [], [])
           | c # r' \<Rightarrow>
               if c = CHR ''.'' then
                 (case digitpart r' of
                    Some (fp, r'') \<Rightarrow> Some (ip, fp, r'')
                  | None \<Rightarrow> Some (ip, [], r'))
               else Some (ip, [], r))
      | None \<Rightarrow>
          (case s of
             [] \<Rightarrow> None
           | c # r' \<Rightarrow>
               if c = CHR ''.'' then
                 (case digitpart r' of
                    Some (fp, r'') \<Rightarrow> Some ([], fp, r'')
                  | None \<Rightarrow> None)
               else None))"

text \<open>\<open>[exponent]\<close> up to the end of the input: the power of ten.\<close>

definition exponent :: "string \<Rightarrow> int option" where
  "exponent s =
     (case s of
        [] \<Rightarrow> Some 0
      | c # r \<Rightarrow>
          if c = CHR ''e'' \<or> c = CHR ''E'' then
            (case opt_sign r of
               (neg, r') \<Rightarrow>
                 (case digitpart r' of
                    Some (ds, []) \<Rightarrow>
                      Some (if neg then - int_of_digits ds else int_of_digits ds)
                  | _ \<Rightarrow> None))
          else None)"

definition float_of_string :: "string \<Rightarrow> pyerror + pyfloat" where
  "float_of_string s =
     (case opt_sign (strip_with is_c_space s) of
        (neg, body) \<Rightarrow>
          (let signed = (\<lambda>x. if neg then fneg x else x); low = map lower body
           in if low = ''inf'' \<or> low = ''infinity'' then Inr (signed (Inf True))
              else if low = ''nan'' then Inr NaN
              else (case number body of
                      None \<Rightarrow> Inl ValueError
                    | Some (ip, fp, r) \<Rightarrow>
                        (case exponent r of
                           None \<Rightarrow> Inl ValueError
                         | Some e \<Rightarrow>
                             Inr (signed (round_double
                               (of_int (int_of_digits (ip @ fp)) / 10 ^ length fp
                                  * 10 powi e)))))))"

text \<open>
  \<open>try: ... except Exception: ...\<close> catches every exception of the model but
  \<open>KeyboardInterrupt\<close> and \<open>SystemExit\<close>, which are not subclasses of \<open>Exception\<close>.
\<close>

fun is_Exception :: "pyerror \<Rightarrow> bool" where
  "is_Exception KeyboardInterrupt = False"
| "is_Exception (SystemExit m) = False"
| "is_Exception e = True"

definition try_except :: "pyerror + 'a \<Rightarrow> (pyerror \<Rightarrow> pyerror + 'a) \<Rightarrow> pyerror + 'a" where
  "try_except body handler =
     (case body of
        Inr v \<Rightarrow> Inr v
      | Inl e \<Rightarrow> if is_Exception e then handler e else Inl e)"

section \<open>Time strings\<close>

text \<open>
  \<^verbatim>\<open>
  def time_str_to_seconds(time_str):
      try:
          parts = time_str.split(':')
          hours = float(parts[0])
          minutes = float(parts[1])
          seconds = float(parts[2])
          return hours * 3600 + minutes * 60 + seconds
      except Exception:
          return 0.0
  \<close>
\<close>

text \<open>The body of the \<open>try\<close>.\<close>

definition seconds_of_parts :: "string \<Rightarrow> pyerror + pyfloat" where
  "seconds_of_parts time_str =
     (let parts = split CHR '':'' time_str
      in bind (getitem parts 0) (\<lambda>p0.
         bind (float_of_string p0) (\<lambda>hours.
         bind (getitem parts 1) (\<lambda>p1.
         bind (float_of_string p1) (\<lambda>minutes.
         bind (getitem parts 2) (\<lambda>p2.
         bind (float_of_string p2) (\<lambda>seconds.
         Inr (fadd (fadd (fmul hours (Finite 3600)) (fmul minutes (Finite 60))) seconds))))))))"

definition time_str_to_seconds :: "string \<Rightarrow> pyerror + pyfloat" where
  "time_str_to_seconds time_str = try_except (seconds_of_parts time_str) (\<lambda>e. Inr (Finite 0))"

section \<open>The report formatter\<close>

text \<open>
  \<^verbatim>\<open>
  def format_time_full(seconds):
      hours = int(seconds // 3600)
      minutes = int((seconds % 3600) // 60)
      secs = int(seconds % 60)
      msecs = int((seconds - int(seconds)) * 1000)
      return f"{hours:02}:{minutes:02}:{secs:02}:{msecs:03}"
  \<close>
\<close>

definition format_time_full :: "pyfloat \<Rightarrow> pyerror + string" where
  "format_time_full seconds =
     bind (float_floordiv seconds (Finite 3600)) (\<lambda>q.
     bind (int_of_float q) (\<lambda>hours.
     bind (float_mod seconds (Finite 3600)) (\<lambda>r.
     bind (float_floordiv r (Finite 60)) (\<lambda>q'.
     bind (int_of_float q') (\<lambda>minutes.
     bind (float_mod seconds (Finite 60)) (\<lambda>r'.
     bind (int_of_float r') (\<lambda>secs.
     bind (int_of_float seconds) (\<lambda>whole.
     bind (float_of_int whole) (\<lambda>wholef.
     bind (int_of_float (fmul (fsub seconds wholef) (Finite 1000))) (\<lambda>msecs.
     Inr (format_int 2 hours @ '':'' @ format_int 2 minutes @ '':''
            @ format_int 2 secs @ '':'' @ format_int 3 msecs)))))))))))"

section \<open>Regular expressions of the script\<close>

text \<open>
  Each pattern is translated into the partial function that Python's backtracking matcher
  computes for it at one position: the captured groups, or \<open>None\<close>.  In every pattern
  below a greedy repetition is followed by a character outside the repeated class, so
  giving characters back can never turn a failure into a match and the longest run is the
  only candidate.  \<open>re_search\<close> is \<open>Pattern.search\<close>: the leftmost position that
  matches.
\<close>

fun match_lit :: "string \<Rightarrow> string \<Rightarrow> string option" where
  "match_lit [] s = Some s"
| "match_lit (p # ps) [] = None"
| "match_lit (p # ps) (c # cs) = (if p = c then match_lit ps cs else None)"

fun re_search :: "(string \<Rightarrow> 'a option) \<Rightarrow> string \<Rightarrow> 'a option" where
  "re_search m [] = m []"
| "re_search m (c # cs) = (case m (c # cs) of Some g \<Rightarrow> Some g | None \<Rightarrow> re_search m cs)"

text \<open>\<open>C+\<close> for a character class \<open>C\<close>: the run and the rest.\<close>

definition run1 :: "(char \<Rightarrow> bool) \<Rightarrow> string \<Rightarrow> (string \<times> string) option" where
  "run1 cls s = (if takeWhile cls s = [] then None else Some (takeWhile cls s, dropWhile cls s))"

text \<open>\<open>\d{2}\<close>: exactly two digits.\<close>

fun two_digits :: "string \<Rightarrow> (string \<times> string) option" where
  "two_digits (a # b # r) = (if is_digit a \<and> is_digit b then Some ([a, b], r) else None)"
| "two_digits s = None"

text \<open>\<^verbatim>\<open>time_pattern = re.compile(r"time=(\d{2}:\d{2}:\d{2}\.\d+)")\<close>\<close>

definition time_pattern_at :: "string \<Rightarrow> string option" where
  "time_pattern_at s =
     Option.bind (match_lit ''time='' s) (\<lambda>r0.
     Option.bind (two_digits r0) (\<lambda>(hh, r1).
     Option.bind (match_lit '':'' r1) (\<lambda>r2.
     Option.bind (two_digits r2) (\<lambda>(mm, r3).
     Option.bind (match_lit '':'' r3) (\<lambda>r4.
     Option.bind (two_digits r4) (\<lambda>(ss, r5).
     Option.bind (match_lit ''.'' r5) (\<lambda>r6.
     Option.bind (run1 is_digit r6) (\<lambda>(frac, r7).
     Some (hh @ '':'' @ mm @ '':'' @ ss @ ''.'' @ frac)))))))))"

text \<open>
  \<^verbatim>\<open>black_pattern = re.compile(
      r"black_start:([\d\.]+)\s+black_end:([\d\.]+)\s+black_duration:([\d\.]+)")\<close>
\<close>

definition is_num_char :: "char \<Rightarrow> bool" where
  "is_num_char c = (is_digit c \<or> c = CHR ''.'')"

definition black_pattern_at :: "string \<Rightarrow> (string \<times> string \<times> string) option" where
  "black_pattern_at s =
     Option.bind (match_lit ''black_start:'' s) (\<lambda>r0.
     Option.bind (run1 is_num_char r0) (\<lambda>(g1, r1).
     Option.bind (run1 is_space r1) (\<lambda>(w1, r2).
     Option.bind (match_lit ''black_end:'' r2) (\<lambda>r3.
     Option.bind (run1 is_num_char r3) (\<lambda>(g2, r4).
     Option.bind (run1 is_space r4) (\<lambda>(w2, r5).
     Option.bind (match_lit ''black_duration:'' r5) (\<lambda>r6.
     Option.bind (run1 is_num_char r6) (\<lambda>(g3, r7).
     Some (g1, g2, g3)))))))))"

text \<open>
  \<^verbatim>\<open>pattern = re.compile(r'START_TIME\s*=\s*"([^"]+)"')\<close>
\<close>

definition dquote :: char where
  "dquote = CHR 0x22"

definition start_time_at :: "string \<Rightarrow> string option" where
  "start_time_at s =
     Option.bind (match_lit ''START_TIME'' s) (\<lambda>r0.
     Option.bind (match_lit ''='' (dropWhile is_space r0)) (\<lambda>r1.
     Option.bind (match_lit [dquote] (dropWhile is_space r1)) (\<lambda>r2.
     Option.bind (run1 (\<lambda>c. c \<noteq> dquote) r2) (\<lambda>(g, r3).
     Option.bind (match_lit [dquote] r3) (\<lambda>r4.
     Some g)))))"

text \<open>
  \<^verbatim>\<open>time_pattern = re.compile(r'(?:(\d+)h)?(?:(\d+)m)?(?:(\d+(?:\.\d+)?)s)?')\<close>

  Used with \<open>Pattern.match\<close>: anchored at the start, not at the end.  Each of the
  three parts is optional, so the match never fails; a part is taken when it matches
  where the previous one stopped, and its group is \<open>None\<close> otherwise.
\<close>

text \<open>\<open>(?:(\d+)u)?\<close> for a unit letter \<open>u\<close>: the group and the rest.\<close>

definition opt_unit :: "char \<Rightarrow> string \<Rightarrow> string option \<times> string" where
  "opt_unit u s =
     (case Option.bind (run1 is_digit s) (\<lambda>(ds, r0).
           Option.bind (match_lit [u] r0) (\<lambda>r1. Some (ds, r1))) of
        Some (ds, r) \<Rightarrow> (Some ds, r)
      | None \<Rightarrow> (None, s))"

text \<open>\<open>(?:(\d+(?:\.\d+)?)s)?\<close>: the group and the rest.\<close>

definition opt_frac :: "string \<Rightarrow> string \<times> string" where
  "opt_frac s =
     (case Option.bind (match_lit ''.'' s) (run1 is_digit) of
        Some (fs, r) \<Rightarrow> (''.'' @ fs, r)
      | None \<Rightarrow> ([], s))"

definition opt_seconds :: "string \<Rightarrow> string option \<times> string" where
  "opt_seconds s =
     (case Option.bind (run1 is_digit s) (\<lambda>(ds, r0).
           case opt_frac r0 of (fr, r1) \<Rightarrow>
             Option.bind (match_lit ''s'' r1) (\<lambda>r2. Some (ds @ fr, r2))) of
        Some (g, r) \<Rightarrow> (Some g, r)
      | None \<Rightarrow> (None, s))"

definition hms_match :: "string \<Rightarrow> string option \<times> string option \<times> string option" where
  "hms_match s =
     (case opt_unit CHR ''h'' s of (g1, r1) \<Rightarrow>
      case opt_unit CHR ''m'' r1 of (g2, r2) \<Rightarrow>
      case opt_seconds r2 of (g3, r3) \<Rightarrow> (g1, g2, g3))"

section \<open>The offset parser\<close>

text \<open>
  \<^verbatim>\<open>
  def parse_ini_offset(ini_filepath):
      offset = 0.0
      try:
          with open(ini_filepath, 'r') as f:
              content = f.read()
          pattern = re.compile(r'START_TIME\s*=\s*"([^"]+)"')
          match = pattern.search(content)
          if match:
              time_str = match.group(1).strip()
              time_pattern = re.compile(r'(?:(\d+)h)?(?:(\d+)m)?(?:(\d+(?:\.\d+)?)s)?')
              time_match = time_pattern.match(time_str)
              if time_match:
                  hours = float(time_match.group(1)) if time_match.group(1) else 0.0
                  minutes = float(time_match.group(2)) if time_match.group(2) else 0.0
                  seconds = float(time_match.group(3)) if time_match.group(3) else 0.0
                  offset = hours * 3600 + minutes * 60 + seconds
      except Exception:
          offset = 0.0
      return offset
  \<close>
  Reading the file is the function \<open>read_text\<close> of the file system: the text of the
  file, or \<open>None\<close> when \<open>open\<close> or \<open>read\<close> raises (an \<open>OSError\<close>, or a decoding error,
  both subclasses of \<open>Exception\<close>).
\<close>

definition read_file :: "(string \<Rightarrow> string option) \<Rightarrow> string \<Rightarrow> pyerror + string" where
  "read_file read_text path = (case read_text path of None \<Rightarrow> Inl OSError | Some content \<Rightarrow> Inr content)"

text \<open>\<open>float(g) if g else 0.0\<close> for a group \<open>g\<close>.\<close>

definition group_float :: "string option \<Rightarrow> pyerror + pyfloat" where
  "group_float g =
     (case g of
        None \<Rightarrow> Inr (Finite 0)
      | Some t \<Rightarrow> if t = [] then Inr (Finite 0) else float_of_string t)"

definition offset_of_content :: "string \<Rightarrow> pyerror + pyfloat" where
  "offset_of_content content =
     (case re_search start_time_at content of
        None \<Rightarrow> Inr (Finite 0)
      | Some g \<Rightarrow>
          (case hms_match (strip g) of
             (g1, g2, g3) \<Rightarrow>
               bind (group_float g1) (\<lambda>hours.
               bind (group_float g2) (\<lambda>minutes.
               bind (group_float g3) (\<lambda>seconds.
               Inr (fadd (fadd (fmul hours (Finite 3600)) (fmul minutes (Finite 60)))
                      seconds))))))"

definition parse_ini_offset :: "(string \<Rightarrow> string option) \<Rightarrow> string \<Rightarrow> pyerror + pyfloat" where
  "parse_ini_offset read_text ini_filepath =
     try_except (bind (read_file read_text ini_filepath) offset_of_content)
       (\<lambda>e. Inr (Finite 0))"

section \<open>The black-interval detector\<close>

text \<open>
  One dictionary \<open>{"start": .., "end": .., "duration": ..}\<close> of the result list.
\<close>

record interval =
  start :: pyfloat
  end' :: pyfloat
  duration :: pyfloat

text \<open>
  What the loop \<open>for line in proc.stderr\<close> meets: the next line of the child's
  diagnostic stream, or the operator's interrupt signal, which raises
  \<open>KeyboardInterrupt\<close> at that point.  The end of the list is the end of the stream.
\<close>

datatype event = Line string | Interrupt

text \<open>
  What the script writes to standard output.  The percentage of a progress line is kept
  as the float that the format \<open>.0f\<close> will render, and a time of the report as the
  string that \<open>format_time_full\<close> returned; the fixed words around them are not
  spelled out.
\<close>

datatype out =
    Progress pyfloat
  | Newline
  | OffsetDetected string
  | NoIniFile
  | TotalDuration string
  | SequencesHeader
  | Sequence string string string
  | NoSequence
  | SequenceCount nat

record detector =
  black_frames :: "interval list"
  stdout :: "out list"

text \<open>
  \<^verbatim>\<open>
  line = line.strip()
  time_match = time_pattern.search(line)
  if time_match:
      current_time_str = time_match.group(1)
      current_time_sec = time_str_to_seconds(current_time_str)
      progress = (current_time_sec / total_duration) * 100
      sys.stdout.write(f"\rTraitement : {progress:.0f}%")
      sys.stdout.flush()
  black_match = black_pattern.search(line)
  if black_match:
      start, end, duration = black_match.groups()
      black_frames.append({
          "start": float(start),
          "end": float(end),
          "duration": float(duration)
      })
  \<close>
\<close>

definition show_progress :: "pyfloat \<Rightarrow> string \<Rightarrow> detector \<Rightarrow> pyerror + detector" where
  "show_progress total_duration line st =
     (case re_search time_pattern_at line of
        None \<Rightarrow> Inr st
      | Some current_time_str \<Rightarrow>
          bind (time_str_to_seconds current_time_str) (\<lambda>current_time_sec.
          bind (fdiv current_time_sec total_duration) (\<lambda>q.
          Inr (st\<lparr>stdout := stdout st @ [Progress (fmul q (Finite 100))]\<rparr>))))"

definition record_black :: "string \<Rightarrow> detector \<Rightarrow> pyerror + detector" where
  "record_black line st =
     (case re_search black_pattern_at line of
        None \<Rightarrow> Inr st
      | Some (g1, g2, g3) \<Rightarrow>
          bind (float_of_string g1) (\<lambda>s.
          bind (float_of_string g2) (\<lambda>e.
          bind (float_of_string g3) (\<lambda>d.
          Inr (st\<lparr>black_frames :=
                 black_frames st @ [\<lparr>start = s, end' = e, duration = d\<rparr>]\<rparr>)))))"

definition process_line :: "pyfloat \<Rightarrow> string \<Rightarrow> detector \<Rightarrow> pyerror + detector" where
  "process_line total_duration line st =
     bind (show_progress total_duration (strip line) st) (record_black (strip line))"

fun stream_loop :: "pyfloat \<Rightarrow> event list \<Rightarrow> detector \<Rightarrow> pyerror + detector" where
  "stream_loop total_duration [] st = Inr st"
| "stream_loop total_duration (Line l # es) st =
     bind (process_line total_duration l st) (stream_loop total_duration es)"
| "stream_loop total_duration (Interrupt # es) st = Inl KeyboardInterrupt"

text \<open>
  \<^verbatim>\<open>
  black_frames = []
  try:
      for line in proc.stderr:
          ...
      proc.wait()
      sys.stdout.write("\n")
  except KeyboardInterrupt:
      proc.terminate()
      sys.exit("Processus interrompu par l'utilisateur.")
  return black_frames
  \<close>
  The outcome of a run of the detector: whether it called \<open>proc.terminate()\<close>, and
  the list it returned or the exception it left with.  The child process and its
  command line are not modelled beyond the stream of events the loop reads.
\<close>

record outcome =
  child_terminated :: bool
  returned :: "pyerror + (interval list \<times> out list)"

definition detect_black_frames :: "event list \<Rightarrow> pyfloat \<Rightarrow> outcome" where
  "detect_black_frames stderr total_duration =
     (case stream_loop total_duration stderr \<lparr>black_frames = [], stdout = []\<rparr> of
        Inr st \<Rightarrow>
          \<lparr>child_terminated = False,
           returned = Inr (black_frames st, stdout st @ [Newline])\<rparr>
      | Inl e \<Rightarrow>
          if e = KeyboardInterrupt
          then \<lparr>child_terminated = True, returned = Inl (SystemExit Interrupted)\<rparr>
          else \<lparr>child_terminated = False, returned = Inl e\<rparr>)"

section \<open>The binary locator\<close>

text \<open>
  What the locator asks of the operating system.  \<open>base_dir\<close> is
  \<open>getattr(sys, '_MEIPASS', os.path.dirname(os.path.abspath(__file__)))\<close>;
  \<open>join\<close> and \<open>dirname\<close> are those of \<open>os.path\<close> for the platform.
\<close>

record os =
  getenv :: "string \<Rightarrow> string option"
  isdir :: "string \<Rightarrow> bool"
  isfile :: "string \<Rightarrow> bool"
  path_exists :: "string \<Rightarrow> bool"
  name :: string
  join :: "string \<Rightarrow> string \<Rightarrow> string"
  dirname :: "string \<Rightarrow> string"
  base_dir :: string
  which :: "string \<Rightarrow> string option"
  read_text :: "string \<Rightarrow> string option"

text \<open>\<open>"ffmpeg.exe" if os.name == "nt" else "ffmpeg"\<close>, and the same for ffprobe.\<close>

definition exe :: "os \<Rightarrow> string \<Rightarrow> string" where
  "exe sys prog = (if name sys = ''nt'' then prog @ ''.exe'' else prog)"

text \<open>
  \<^verbatim>\<open>
  def find_ffmpeg():
      env_path = os.getenv("FFMPEG_PATH")
      if env_path:
          if os.path.isdir(env_path):
              ffmpeg_exec = os.path.join(env_path, "ffmpeg.exe" if os.name == "nt" else "ffmpeg")
          else:
              ffmpeg_exec = env_path
          if os.path.isfile(ffmpeg_exec):
              return ffmpeg_exec
      base_dir = getattr(sys, '_MEIPASS', os.path.dirname(os.path.abspath(__file__)))
      bundled_ffmpeg = os.path.join(base_dir, "bin", "ffmpeg.exe" if os.name == "nt" else "ffmpeg")
      if os.path.isfile(bundled_ffmpeg):
          return bundled_ffmpeg
      ffmpeg_in_path = shutil.which("ffmpeg")
      if ffmpeg_in_path:
          return ffmpeg_in_path
      return None
  \<close>
  A string is true when it is not empty, and \<open>None\<close> is false.
\<close>

definition env_ffmpeg :: "os \<Rightarrow> string option" where
  "env_ffmpeg sys =
     (case getenv sys ''FFMPEG_PATH'' of
        None \<Rightarrow> None
      | Some env_path \<Rightarrow>
          if env_path = [] then None
          else let ffmpeg_exec =
                     (if isdir sys env_path then join sys env_path (exe sys ''ffmpeg'')
                      else env_path)
               in if isfile sys ffmpeg_exec then Some ffmpeg_exec else None)"

definition bundled_ffmpeg :: "os \<Rightarrow> string" where
  "bundled_ffmpeg sys = join sys (join sys (base_dir sys) ''bin'') (exe sys ''ffmpeg'')"

definition in_path :: "os \<Rightarrow> string \<Rightarrow> string option" where
  "in_path sys prog =
     (case which sys prog of
        None \<Rightarrow> None
      | Some p \<Rightarrow> if p = [] then None else Some p)"

definition find_ffmpeg :: "os \<Rightarrow> string option" where
  "find_ffmpeg sys =
     (case env_ffmpeg sys of
        Some p \<Rightarrow> Some p
      | None \<Rightarrow>
          if isfile sys (bundled_ffmpeg sys) then Some (bundled_ffmpeg sys)
          else in_path sys ''ffmpeg'')"

text \<open>
  \<^verbatim>\<open>
  def find_ffprobe():
      ffmpeg_exec = find_ffmpeg()
      if ffmpeg_exec:
          base_dir = os.path.dirname(ffmpeg_exec)
          candidate = os.path.join(base_dir, "ffprobe.exe" if os.name == "nt" else "ffprobe")
          if os.path.isfile(candidate):
              return candidate
      ffprobe_in_path = shutil.which("ffprobe")
      if ffprobe_in_path:
          return ffprobe_in_path
      return None
  \<close>
\<close>

definition ffprobe_candidate :: "os \<Rightarrow> string option" where
  "ffprobe_candidate sys =
     (case find_ffmpeg sys of
        None \<Rightarrow> None
      | Some ffmpeg_exec \<Rightarrow>
          if ffmpeg_exec = [] then None
          else let candidate = join sys (dirname sys ffmpeg_exec) (exe sys ''ffprobe'')
               in if isfile sys candidate then Some candidate else None)"

definition find_ffprobe :: "os \<Rightarrow> string option" where
  "find_ffprobe sys =
     (case ffprobe_candidate sys of
        Some p \<Rightarrow> Some p
      | None \<Rightarrow> in_path sys ''ffprobe'')"

section \<open>The duration probe\<close>

text \<open>
  \<^verbatim>\<open>
  try:
      output = subprocess.check_output(cmd, universal_newlines=True)
      duration = float(output.strip())
      return duration
  except Exception as e:
      sys.exit(f"Erreur lors de la recuperation de la duree de la video : {e}")
  \<close>
  \<open>probe\<close> is the result of \<open>check_output\<close>: the text the probing executable printed,
  or the exception raised when it could not be run or exited with an error.
\<close>

definition get_video_duration :: "pyerror + string \<Rightarrow> pyerror + pyfloat" where
  "get_video_duration probe =
     try_except (bind probe (\<lambda>output. float_of_string (strip output)))
       (\<lambda>e. Inl (SystemExit NoDuration))"

section \<open>The report\<close>

text \<open>
  \<^verbatim>\<open>
  for seq in results:
      debut = format_time_full(seq['start'] + offset)
      fin = format_time_full(seq['end'] + offset)
      duree = format_time_full(seq['duration'])
      print(f"Debut : {debut}, Fin : {fin}, Duree : {duree}")
  \<close>
\<close>

definition report_line :: "pyfloat \<Rightarrow> interval \<Rightarrow> pyerror + out" where
  "report_line offset seq =
     bind (format_time_full (fadd (start seq) offset)) (\<lambda>debut.
     bind (format_time_full (fadd (end' seq) offset)) (\<lambda>fin.
     bind (format_time_full (duration seq)) (\<lambda>duree.
     Inr (Sequence debut fin duree))))"

fun report_loop :: "pyfloat \<Rightarrow> interval list \<Rightarrow> out list \<Rightarrow> pyerror + out list" where
  "report_loop offset [] printed = Inr printed"
| "report_loop offset (seq # results) printed =
     bind (report_line offset seq) (\<lambda>l. report_loop offset results (printed @ [l]))"

text \<open>
  \<^verbatim>\<open>
  if results:
      print("\nSequences noires detectees :")
      for seq in results: ...
  else:
      print("\nAucune sequence noire detectee.")
  print(f"\nNombres de sequences detectees = {len(results)} Sequences")
  \<close>
\<close>

definition report :: "pyfloat \<Rightarrow> interval list \<Rightarrow> out list \<Rightarrow> pyerror + out list" where
  "report offset results printed =
     bind (if results \<noteq> [] then report_loop offset results (printed @ [SequencesHeader])
           else Inr (printed @ [NoSequence])) (\<lambda>printed'.
     Inr (printed' @ [SequenceCount (length results)]))"

section \<open>The program\<close>

text \<open>
  The run of \<open>main\<close> on the video path \<open>video\<close>, in the operating system \<open>sys\<close>, when
  the probing executable answers \<open>probe\<close> and the detection executable's diagnostic
  stream is \<open>stderr\<close>: what was printed, or the exception that ended the run.  The
  parsing of the command line is not modelled: \<open>video\<close> is \<open>args.video\<close>, and the two
  thresholds only enter the command line of the child process.  What was printed before
  an exception is not kept.
\<close>

definition offset_banner :: "os \<Rightarrow> string \<Rightarrow> pyerror + (pyfloat \<times> out list)" where
  "offset_banner sys video =
     (let ini_file = video @ ''.ini''
      in if path_exists sys ini_file
         then bind (parse_ini_offset (read_text sys) ini_file) (\<lambda>offset.
              bind (format_time_full offset) (\<lambda>shown.
              Inr (offset, [OffsetDetected shown])))
         else Inr (Finite 0, [NoIniFile]))"

definition main :: "os \<Rightarrow> string \<Rightarrow> pyerror + string \<Rightarrow> event list \<Rightarrow> pyerror + out list" where
  "main sys video probe stderr =
     (case find_ffmpeg sys of
        None \<Rightarrow> Inl (SystemExit NoFfmpeg)
      | Some ffmpeg_exec \<Rightarrow>
          if ffmpeg_exec = [] then Inl (SystemExit NoFfmpeg)
          else (case find_ffprobe sys of
                  None \<Rightarrow> Inl (SystemExit NoFfprobe)
                | Some ffprobe_exec \<Rightarrow>
                    if ffprobe_exec = [] then Inl (SystemExit NoFfprobe)
                    else
                      bind (offset_banner sys video) (\<lambda>(offset, printed0).
                      bind (get_video_duration probe) (\<lambda>total_duration.
                      bind (format_time_full total_duration) (\<lambda>shown.
                      bind (returned (detect_black_frames stderr total_duration))
                        (\<lambda>(results, progress).
                      report offset results
                        (printed0 @ [TotalDuration shown] @ progress)))))))"

section \<open>Notions used to state the properties\<close>

text \<open>
  The value that a reader computes by hand for a decimal numeral with integer digits
  \<open>ip\<close> and fraction digits \<open>fp\<close>: an exact rational, with no rounding.
\<close>

definition decimal :: "string \<Rightarrow> string \<Rightarrow> rat" where
  "decimal ip fp = of_int (int_of_digits (ip @ fp)) / 10 ^ length fp"

text \<open>
  An assignment \<open>START_TIME = "value"\<close> at the start of a text: the name, optional
  whitespace around the equals sign, and a value of at least one character between
  double quotes.
\<close>

definition is_assignment :: "string \<Rightarrow> string \<Rightarrow> bool" where
  "is_assignment s v =
     (\<exists>w1 w2 post.
        s = ''START_TIME'' @ w1 @ ''='' @ w2 @ [dquote] @ v @ [dquote] @ post \<and>
        list_all is_space w1 \<and> list_all is_space w2 \<and> v \<noteq> [] \<and> dquote \<notin> set v)"








text \<open>
  A value begins with a component when it starts with digits followed by \<open>h\<close>, \<open>m\<close> or
  \<open>s\<close>, or with digits, a point, digits and \<open>s\<close>.
\<close>

definition begins_with_component :: "string \<Rightarrow> bool" where
  "begins_with_component t =
     (\<exists>ds r. ds \<noteq> [] \<and> list_all is_digit ds \<and>
        (t = ds @ ''h'' @ r \<or> t = ds @ ''m'' @ r \<or> t = ds @ ''s'' @ r \<or>
         (\<exists>fs. fs \<noteq> [] \<and> list_all is_digit fs \<and> t = ds @ ''.'' @ fs @ ''s'' @ r)))"




section \<open>Example inputs\<close>

text \<open>
  An operating system in which \<open>FFMPEG_PATH\<close> names a directory that holds ffmpeg, the
  bundled \<open>bin\<close> directory and the search path hold a copy too, and the video has no
  sidecar file; and one in which the sidecar file exists and cannot be read.
\<close>

definition demo_os :: os where
  "demo_os =
     \<lparr>getenv = (\<lambda>v. if v = ''FFMPEG_PATH'' then Some ''/opt/ff'' else None),
      isdir = (\<lambda>p. p = ''/opt/ff''),
      isfile = (\<lambda>p. p = ''/opt/ff/ffmpeg'' \<or> p = ''/app/bin/ffmpeg'' \<or> p = ''/usr/bin/ffmpeg''),
      path_exists = (\<lambda>p. False),
      name = ''posix'',
      join = (\<lambda>a b. a @ ''/'' @ b),
      dirname = (\<lambda>p. ''/opt/ff''),
      base_dir = ''/app'',
      which = (\<lambda>p. Some ''/usr/bin/ffmpeg''),
      read_text = (\<lambda>p. None)\<rparr>"

definition unreadable_os :: os where
  "unreadable_os = demo_os\<lparr>path_exists := (\<lambda>p. True)\<rparr>"

text \<open>
  Variants of \<open>demo_os\<close> for the locator.  In \<open>direct_os\<close> the variable names the
  executable itself.  In \<open>bundled_os\<close> the variable is unset, so the bundled copy is the
  first one found although the search path holds a copy too.  In \<open>path_os\<close> the variable
  names a file that does not exist and there is no bundled copy, so only the search path
  holds ffmpeg.  In \<open>bare_os\<close> the search path holds none either.
\<close>

definition direct_os :: os where
  "direct_os = demo_os\<lparr>isdir := (\<lambda>p. False),
                        isfile := (\<lambda>p. p = ''/opt/ff'' \<or> p = ''/app/bin/ffmpeg'' \<or> p = ''/usr/bin/ffmpeg'')\<rparr>"

definition bundled_os :: os where
  "bundled_os = demo_os\<lparr>getenv := (\<lambda>v. None)\<rparr>"

definition path_os :: os where
  "path_os = demo_os\<lparr>getenv := (\<lambda>v. if v = ''FFMPEG_PATH'' then Some ''/missing/ffmpeg'' else None),
                      isfile := (\<lambda>p. p = ''/usr/bin/ffmpeg'')\<rparr>"

definition bare_os :: os where
  "bare_os = path_os\<lparr>which := (\<lambda>p. None)\<rparr>"

section \<open>Auxiliary facts\<close>

subsection \<open>Sequencing\<close>

lemma bind_Inr [simp]: "bind (Inr v) f = f v"
  by (simp add: bind_def)

lemma bind_Inl [simp]: "bind (Inl e) f = Inl e"
  by (simp add: bind_def)

lemma bind_eq_Inr: "bind m f = Inr y \<longleftrightarrow> (\<exists>v. m = Inr v \<and> f v = Inr y)"
  by (cases m) simp_all

subsection \<open>The detector's loop\<close>

lemma stream_loop_append:
  "stream_loop td (xs @ ys) st = bind (stream_loop td xs st) (stream_loop td ys)"
proof (induction xs arbitrary: st)
  case Nil
  show ?case by simp
next
  case (Cons x xs)
  show ?case
  proof (cases x)
    case (Line l)
    then show ?thesis using Cons.IH by (cases "process_line td l st") simp_all
  next
    case Interrupt
    then show ?thesis by simp
  qed
qed

lemma stream_loop_interrupted:
  "Interrupt \<in> set es \<Longrightarrow> \<exists>e. stream_loop td es st = Inl e"
proof (induction es arbitrary: st)
  case Nil
  then show ?case by simp
next
  case (Cons x es)
  show ?case
  proof (cases x)
    case (Line l)
    with Cons.prems have "Interrupt \<in> set es" by simp
    then show ?thesis using Cons.IH Line by (cases "process_line td l st") simp_all
  next
    case Interrupt
    then show ?thesis by simp
  qed
qed

subsection \<open>The report\<close>

lemma report_line_eq:
  "report_line offset seq = Inr l \<longleftrightarrow>
     (\<exists>debut fin duree.
        format_time_full (fadd (start seq) offset) = Inr debut \<and>
        format_time_full (fadd (end' seq) offset) = Inr fin \<and>
        format_time_full (duration seq) = Inr duree \<and>
        l = Sequence debut fin duree)"
  by (auto simp: report_line_def bind_eq_Inr)

lemma report_loop_eq:
  "report_loop offset results printed = Inr printed' \<longleftrightarrow>
     (\<exists>ls. list_all2 (\<lambda>seq l. report_line offset seq = Inr l) results ls \<and>
           printed' = printed @ ls)"
proof (induction results arbitrary: printed)
  case Nil
  show ?case by auto
next
  case (Cons seq results)
  show ?case
    by (auto simp: bind_eq_Inr Cons.IH list_all2_Cons1)
qed

lemma fmt_15: "format_time_full (fadd (Finite 5) (Finite 10)) = Inr ''00:00:15:000''"
  by code_simp

lemma fmt_17_5: "format_time_full (fadd (Finite (15 / 2)) (Finite 10)) = Inr ''00:00:17:500''"
  by code_simp

lemma fmt_2_5: "format_time_full (Finite (5 / 2)) = Inr ''00:00:02:500''"
  by code_simp

subsection \<open>Exceptions of the time-string parser\<close>

lemma float_of_string_error: "float_of_string s = Inl e \<Longrightarrow> e = ValueError"
  by (auto simp: float_of_string_def Let_def split: prod.splits option.splits if_splits)

lemma seconds_of_parts_error: "seconds_of_parts s = Inl e \<Longrightarrow> is_Exception e"
  unfolding seconds_of_parts_def Let_def
  by (auto simp: bind_def getitem_def split: sum.splits if_splits dest: float_of_string_error)

lemma time_str_to_seconds_total: "\<exists>v. time_str_to_seconds s = Inr v"
  using seconds_of_parts_error [of s]
  by (cases "seconds_of_parts s") (auto simp: time_str_to_seconds_def try_except_def)

lemma float_x: "float_of_string ''x'' = Inl ValueError"
  by code_simp

subsection \<open>Rounding\<close>

lemma log2_up_bounds:
  "1 \<le> x \<Longrightarrow> 2 ^ log2_up x \<le> x \<and> x < 2 ^ Suc (log2_up x)"
proof (induction x rule: log2_up.induct)
  case (1 x)
  show ?case
  proof (cases "x < 2")
    case True
    with "1.prems" show ?thesis by (simp add: log2_up.simps [of x])
  next
    case False
    then have "1 \<le> x / 2" by simp
    with "1.IH" False have "2 ^ log2_up (x / 2) \<le> x / 2 \<and> x / 2 < 2 ^ Suc (log2_up (x / 2))"
      by simp
    with False show ?thesis by (simp add: log2_up.simps [of x])
  qed
qed

lemma log2_down_bounds:
  "0 < x \<Longrightarrow> x < 1 \<Longrightarrow> 1 \<le> x * 2 ^ log2_down x \<and> x * 2 ^ log2_down x < 2"
proof (induction x rule: log2_down.induct)
  case (1 x)
  show ?case
  proof (cases "2 * x < 1")
    case True
    with "1.IH" "1.prems" have "1 \<le> 2 * x * 2 ^ log2_down (2 * x) \<and> 2 * x * 2 ^ log2_down (2 * x) < 2"
      by simp
    with "1.prems" show ?thesis by (simp add: log2_down.simps [of x] mult_ac)
  next
    case False
    then have "log2_down (2 * x) = 0" by (simp add: log2_down.simps [of "2 * x"])
    with "1.prems" False show ?thesis by (simp add: log2_down.simps [of x] mult_ac)
  qed
qed

lemma expo_bounds:
  assumes "0 < x"
  shows "2 powi expo x \<le> x \<and> x < 2 powi (expo x + 1)"
proof (cases "1 \<le> x")
  case True
  then show ?thesis
    using log2_up_bounds [of x] by (simp add: expo_def power_int_add)
next
  case False
  with assms have b: "1 \<le> x * 2 ^ log2_down x" "x * 2 ^ log2_down x < 2"
    using log2_down_bounds [of x] by simp_all
  have p: "(0::rat) < 2 ^ log2_down x" by simp
  have e1: "(2::rat) powi (- int (log2_down x)) = 1 / 2 ^ log2_down x"
    by (simp add: power_int_minus_divide)
  have "(2::rat) powi (- int (log2_down x) + 1) = 2 powi (- int (log2_down x)) * 2"
    by (subst power_int_add_1) simp_all
  then have e2: "(2::rat) powi (- int (log2_down x) + 1) = 2 / 2 ^ log2_down x"
    by (simp add: e1)
  have "1 / 2 ^ log2_down x \<le> x"
    using b(1) p by (simp add: field_simps)
  moreover have "x < 2 / 2 ^ log2_down x"
    using b(2) p by (simp add: field_simps)
  ultimately show ?thesis
    using False e1 e2 by (simp add: expo_def)
qed

lemma expo_less:
  assumes "0 < x" and "x < 2 powi k"
  shows "expo x < k"
proof (rule ccontr)
  assume "\<not> expo x < k"
  then have "(2::rat) powi k \<le> 2 powi expo x"
    by (intro power_int_increasing) simp_all
  also have "\<dots> \<le> x" using expo_bounds [OF assms(1)] by simp
  finally show False using assms(2) by simp
qed

lemma expo_nonneg: "1 \<le> x \<Longrightarrow> 0 \<le> expo x"
  by (simp add: expo_def)

lemma round_half_even_error: "\<bar>of_int (round_half_even y) - y\<bar> \<le> 1 / 2"
proof -
  have "of_int \<lfloor>y\<rfloor> \<le> y" "y < of_int \<lfloor>y\<rfloor> + 1" by linarith+
  then show ?thesis
    by (auto simp: round_half_even_def Let_def abs_le_iff)
qed

lemma round_half_even_of_int [simp]: "round_half_even (of_int n) = n"
  by (simp add: round_half_even_def)

lemma round_half_even_nonneg: "0 \<le> y \<Longrightarrow> 0 \<le> round_half_even y"
proof -
  assume "0 \<le> y"
  then have "0 \<le> \<lfloor>y\<rfloor>" by simp
  then show ?thesis by (auto simp: round_half_even_def Let_def)
qed

lemma quantum_pos [simp]: "0 < quantum x"
  by (simp add: quantum_def)

lemma round_double_nonneg: "0 \<le> x \<Longrightarrow> fnonneg (round_double x)"
proof -
  assume x: "0 \<le> x"
  have "0 \<le> x / quantum x" using x quantum_pos [of x] by (intro divide_nonneg_pos)
  then have "0 \<le> round_half_even (x / quantum x)" by (rule round_half_even_nonneg)
  then have "(0::rat) \<le> of_int (round_half_even (x / quantum x)) * quantum x"
    using less_imp_le [OF quantum_pos [of x]] by (intro mult_nonneg_nonneg) simp_all
  with x show ?thesis by (auto simp: round_double_def Let_def)
qed

lemma quantum_le:
  assumes "x \<noteq> 0" and "\<bar>x\<bar> < 2 powi k" and "- 1021 \<le> k"
  shows "quantum x \<le> 2 powi (k - 53)"
proof -
  have "expo \<bar>x\<bar> < k" using assms(1,2) by (intro expo_less) simp_all
  then have "max (expo \<bar>x\<bar>) (- 1022) - 52 \<le> k - 53" using assms(3) by simp
  then show ?thesis unfolding quantum_def by (intro power_int_increasing) simp_all
qed

lemma round_double_close:
  assumes "x \<noteq> 0" and "\<bar>x\<bar> < 2 powi k" and "- 1021 \<le> k" and "k \<le> 1023"
  shows "\<exists>v. round_double x = Finite v \<and> \<bar>v - x\<bar> \<le> 2 powi (k - 54)"
proof -
  define q where "q = quantum x"
  define v where "v = of_int (round_half_even (x / q)) * q"
  have q: "0 < q" "q \<le> 2 powi (k - 53)"
    using quantum_le [OF assms(1,2,3)] by (simp_all add: q_def)
  have "v - x = (of_int (round_half_even (x / q)) - x / q) * q"
    using q(1) by (simp add: v_def field_simps)
  then have "\<bar>v - x\<bar> = \<bar>of_int (round_half_even (x / q)) - x / q\<bar> * q"
    using q(1) by (simp add: abs_mult)
  also have "\<dots> \<le> (1 / 2) * q"
    using round_half_even_error [of "x / q"] q(1) by (intro mult_right_mono) simp_all
  also have "\<dots> \<le> (1 / 2) * 2 powi (k - 53)"
    using q(2) by simp
  also have "\<dots> = 2 powi (k - 54)"
  proof -
    have "(2::rat) powi (k - 53) = 2 powi (k - 54 + 1)" by simp
    also have "\<dots> = 2 powi (k - 54) * 2" by (subst power_int_add_1) simp_all
    finally show ?thesis by simp
  qed
  finally have close: "\<bar>v - x\<bar> \<le> 2 powi (k - 54)" .
  have "(2::rat) powi (k - 54) \<le> 2 powi k" by (intro power_int_increasing) simp_all
  then have "\<bar>v\<bar> < 2 powi k + 2 powi k" using close assms(2) by linarith
  also have "\<dots> = 2 powi (k + 1)" by (subst power_int_add_1) simp_all
  also have "\<dots> \<le> 2 powi 1024" using assms(4) by (intro power_int_increasing) simp_all
  finally have "\<bar>v\<bar> < 2 ^ 1024" by simp
  then have "round_double x = Finite v"
    using assms(1) by (simp add: round_double_def Let_def q_def [symmetric] v_def [symmetric])
  with close show ?thesis by blast
qed

lemma round_double_int:
  assumes "\<bar>n\<bar> < 2 ^ 53"
  shows "round_double (of_int n) = Finite (of_int n)"
proof (cases "n = 0")
  case True
  then show ?thesis by (simp add: round_double_def)
next
  case False
  define x :: rat where "x = of_int n"
  have x0: "x \<noteq> 0" using False by (simp add: x_def)
  have x1: "1 \<le> \<bar>x\<bar>" using False unfolding x_def by (metis of_int_abs of_int_1_le_iff zero_less_abs_iff int_one_le_iff_zero_less)
  have "\<bar>x\<bar> < of_int (2 ^ 53)" unfolding x_def using assms by (metis of_int_abs of_int_less_iff)
  then have x2: "\<bar>x\<bar> < 2 powi 53" by simp
  define e where "e = expo \<bar>x\<bar>"
  have e: "0 \<le> e" "e < 53"
    using expo_nonneg [OF x1] expo_less [of "\<bar>x\<bar>" 53] x0 x2 by (simp_all add: e_def)
  then have q: "quantum x = 2 powi (e - 52)"
    by (simp add: quantum_def e_def [symmetric] max_def)
  have "(2::rat) powi (e - 52) = 1 / 2 powi (52 - e)"
    using power_int_minus_divide [of "2::rat" "52 - e"] by simp
  also have "(2::rat) powi (52 - e) = 2 ^ nat (52 - e)"
    using e by (simp add: power_int_def)
  finally have q': "quantum x = 1 / 2 ^ nat (52 - e)" using q by simp
  have "x / quantum x = of_int n * 2 ^ nat (52 - e)"
    unfolding q' by (simp add: x_def)
  also have "\<dots> = of_int (n * 2 ^ nat (52 - e))"
    by simp
  finally have "x / quantum x = of_int (n * 2 ^ nat (52 - e))" .
  then have r: "round_half_even (x / quantum x) = n * 2 ^ nat (52 - e)"
    by (simp only: round_half_even_of_int)
  have v: "of_int (round_half_even (x / quantum x)) * quantum x = x"
    unfolding r unfolding q' by (simp add: x_def)
  have "\<bar>x\<bar> < 2 ^ 1024"
  proof -
    have "(2::rat) powi 53 \<le> 2 powi 1024" by (intro power_int_increasing) simp_all
    then show ?thesis using x2 by simp
  qed
  then show ?thesis
    using x0 v by (simp add: round_double_def Let_def x_def [symmetric])
qed

lemma round_double_near:
  assumes "\<bar>x\<bar> < 2 powi k" and "- 1021 \<le> k" and "k \<le> 1023"
  shows "\<exists>v. round_double x = Finite v \<and> \<bar>v - x\<bar> \<le> 2 powi (k - 54)"
proof (cases "x = 0")
  case True
  then show ?thesis by (simp add: round_double_def)
next
  case False
  then show ?thesis using assms by (rule round_double_close)
qed

subsection \<open>Characters\<close>

lemma digit_code: "is_digit c \<Longrightarrow> 48 \<le> code c \<and> code c \<le> 57"
  by (simp add: is_digit_def)

lemma digit_not_space [simp]: "is_digit c \<Longrightarrow> \<not> is_space c" "is_digit c \<Longrightarrow> \<not> is_c_space c"
  by (auto simp: is_digit_def is_space_def is_c_space_def)

lemma digit_val_bounds:
  assumes "is_digit c"
  shows "0 \<le> digit_val c" and "digit_val c < 10"
proof -
  have "(of_char c :: int) = int (code c)"
    by (simp add: code_def of_nat_of_char)
  then show "0 \<le> digit_val c" and "digit_val c < 10"
    using assms by (simp_all add: is_digit_def digit_val_def)
qed

lemma digit_lower [simp]: "is_digit c \<Longrightarrow> lower c = c"
  by (auto simp: is_digit_def lower_def)

lemma digit_neq:
  assumes "is_digit c"
  shows "c \<noteq> CHR ''-''" "c \<noteq> CHR ''+''" "c \<noteq> CHR ''.''" "c \<noteq> CHR ''_''" "c \<noteq> CHR '':''"
    "c \<noteq> CHR ''i''" "c \<noteq> CHR ''n''" "c \<noteq> CHR ''h''" "c \<noteq> CHR ''m''" "c \<noteq> CHR ''s''"
    "c \<noteq> CHR ''e''" "c \<noteq> CHR ''E''" "c \<noteq> dquote"
  using assms by (auto simp: is_digit_def code_def dquote_def)

lemma not_digit [simp]:
  "\<not> is_digit CHR ''.''" "\<not> is_digit CHR '':''" "\<not> is_digit CHR ''h''" "\<not> is_digit CHR ''m''"
  "\<not> is_digit CHR ''s''" "\<not> is_digit CHR ''_''"
  by (simp_all add: is_digit_def code_def)

subsection \<open>Stripping\<close>

lemma strip_with_id:
  assumes "s \<noteq> []" and "\<not> sp (hd s)" and "\<not> sp (last s)"
  shows "strip_with sp s = s"
proof -
  have "dropWhile sp s = s" using assms(1,2) by (cases s) simp_all
  moreover have "dropWhile sp (rev s) = rev s"
    using assms(1,3) by (cases "rev s") (simp_all add: last_rev [symmetric] hd_rev)
  ultimately show ?thesis by (simp add: strip_with_def)
qed

subsection \<open>Digit strings\<close>

lemma int_of_digits_snoc: "int_of_digits (ds @ [c]) = 10 * int_of_digits ds + digit_val c"
  by (simp add: int_of_digits_def)

lemma int_of_digits_Nil [simp]: "int_of_digits [] = 0"
  by (simp add: int_of_digits_def)

lemma int_of_digits_bounds:
  "list_all is_digit ds \<Longrightarrow> 0 \<le> int_of_digits ds \<and> int_of_digits ds < 10 ^ length ds"
proof (induction ds rule: rev_induct)
  case Nil
  show ?case by simp
next
  case (snoc c ds)
  then have "0 \<le> int_of_digits ds" "int_of_digits ds < 10 ^ length ds"
    "0 \<le> digit_val c" "digit_val c < 10"
    by (simp_all add: digit_val_bounds)
  then show ?case by (simp add: int_of_digits_snoc)
qed

lemma digitpart_tail_all: "list_all is_digit ds \<Longrightarrow> digitpart_tail ds = (ds, [])"
  by (induction ds rule: digitpart_tail.induct) auto

lemma digitpart_tail_stop:
  "list_all is_digit ds \<Longrightarrow> \<not> is_digit c \<Longrightarrow> c \<noteq> CHR ''_'' \<Longrightarrow>
   digitpart_tail (ds @ c # r) = (ds, c # r)"
proof (induction ds)
  case Nil
  then show ?case by (cases r) simp_all
next
  case (Cons d ds)
  then have IH: "digitpart_tail (ds @ c # r) = (ds, c # r)" and d: "is_digit d" by simp_all
  obtain x xs where x: "ds @ c # r = x # xs" by (cases "ds @ c # r") simp_all
  then show ?case using IH d by simp
qed

lemma digitpart_all:
  "ds \<noteq> [] \<Longrightarrow> list_all is_digit ds \<Longrightarrow> digitpart ds = Some (ds, [])"
  by (cases ds) (simp_all add: digitpart_tail_all)

lemma digitpart_stop:
  "ds \<noteq> [] \<Longrightarrow> list_all is_digit ds \<Longrightarrow> \<not> is_digit c \<Longrightarrow> c \<noteq> CHR ''_'' \<Longrightarrow>
   digitpart (ds @ c # r) = Some (ds, c # r)"
  by (cases ds) (simp_all add: digitpart_tail_stop)

lemma number_digits:
  "ds \<noteq> [] \<Longrightarrow> list_all is_digit ds \<Longrightarrow> number ds = Some (ds, [], [])"
  by (simp add: number_def digitpart_all)

lemma number_decimal:
  "ip \<noteq> [] \<Longrightarrow> list_all is_digit ip \<Longrightarrow> fp \<noteq> [] \<Longrightarrow> list_all is_digit fp \<Longrightarrow>
   number (ip @ CHR ''.'' # fp) = Some (ip, fp, [])"
  by (simp add: number_def digitpart_stop digitpart_all)

lemma opt_sign_digit: "is_digit c \<Longrightarrow> opt_sign (c # cs) = (False, c # cs)"
  by (simp add: digit_neq)

lemma float_of_string_digit_start:
  assumes "is_digit c" and "\<not> is_c_space (last (c # cs))"
  shows "float_of_string (c # cs) =
     (case number (c # cs) of
        None \<Rightarrow> Inl ValueError
      | Some (ip, fp, r) \<Rightarrow>
          (case exponent r of
             None \<Rightarrow> Inl ValueError
           | Some e \<Rightarrow>
               Inr (round_double
                 (of_int (int_of_digits (ip @ fp)) / 10 ^ length fp * 10 powi e))))"
proof -
  have s: "strip_with is_c_space (c # cs) = c # cs"
    using assms by (intro strip_with_id) simp_all
  have lc: "lower c \<noteq> CHR ''i''" "lower c \<noteq> CHR ''n''"
    using assms(1) by (simp_all add: digit_neq)
  show ?thesis
    unfolding float_of_string_def s opt_sign_digit [OF assms(1)]
    by (simp add: Let_def lc split: option.split prod.split)
qed

lemma float_of_digits:
  assumes "ds \<noteq> []" and "list_all is_digit ds"
  shows "float_of_string ds = Inr (round_double (of_int (int_of_digits ds)))"
proof -
  obtain c cs where ds: "ds = c # cs" using assms(1) by (cases ds) simp_all
  have "is_digit (last ds)" using assms by (simp add: list_all_iff)
  then have "\<not> is_c_space (last (c # cs))" using ds by simp
  moreover have "is_digit c" using assms(2) ds by simp
  ultimately show ?thesis
    using number_digits [OF assms] by (simp add: float_of_string_digit_start ds exponent_def)
qed

lemma float_of_decimal:
  assumes "ip \<noteq> []" and "list_all is_digit ip" and "fp \<noteq> []" and "list_all is_digit fp"
  shows "float_of_string (ip @ CHR ''.'' # fp) =
           Inr (round_double (of_int (int_of_digits (ip @ fp)) / 10 ^ length fp))"
proof -
  obtain c cs where ip: "ip = c # cs" using assms(1) by (cases ip) simp_all
  have "is_digit (last fp)" using assms(3,4) by (simp add: list_all_iff)
  then have "\<not> is_c_space (last (c # (cs @ CHR ''.'' # fp)))" using assms(3) by simp
  moreover have "is_digit c" using assms(2) ip by simp
  ultimately have "float_of_string (c # (cs @ CHR ''.'' # fp)) =
     (case number (c # (cs @ CHR ''.'' # fp)) of
        None \<Rightarrow> Inl ValueError
      | Some (ip, fp, r) \<Rightarrow>
          (case exponent r of
             None \<Rightarrow> Inl ValueError
           | Some e \<Rightarrow>
               Inr (round_double
                 (of_int (int_of_digits (ip @ fp)) / 10 ^ length fp * 10 powi e))))"
    by (intro float_of_string_digit_start)
  then show ?thesis
    using number_decimal [OF assms] by (simp add: ip exponent_def)
qed

subsection \<open>Splitting\<close>

lemma split_no_sep: "sep \<notin> set s \<Longrightarrow> split sep s = [s]"
  by (induction s) auto

lemma split_at_sep: "sep \<notin> set a \<Longrightarrow> split sep (a @ sep # b) = a # split sep b"
  by (induction a) auto

subsection \<open>Valid time strings\<close>

lemma digits_no_colon: "list_all is_digit ds \<Longrightarrow> CHR '':'' \<notin> set ds"
  by (auto simp: list_all_iff digit_neq)

lemma decimal_bounds:
  assumes "list_all is_digit (ip @ fp)"
  shows "0 \<le> decimal ip fp" and "decimal ip fp < 10 ^ length ip"
proof -
  have b: "0 \<le> int_of_digits (ip @ fp)" "int_of_digits (ip @ fp) < 10 ^ length (ip @ fp)"
    using int_of_digits_bounds [OF assms] by simp_all
  show "0 \<le> decimal ip fp" using b(1) by (simp add: decimal_def)
  have "(of_int (int_of_digits (ip @ fp)) :: rat) < of_int (10 ^ length (ip @ fp))"
    using b(2) by (simp only: of_int_less_iff)
  then have "(of_int (int_of_digits (ip @ fp)) :: rat) < 10 ^ length ip * 10 ^ length fp"
    by (simp add: power_add)
  then show "decimal ip fp < 10 ^ length ip"
    by (simp add: decimal_def field_simps)
qed

lemma seconds_of_parts_valid:
  assumes "length hh = 2" "length mm = 2" "length ss = 2" "fs \<noteq> []"
    and "list_all is_digit (hh @ mm @ ss @ fs)"
  shows "seconds_of_parts (hh @ '':'' @ mm @ '':'' @ ss @ ''.'' @ fs) =
           Inr (fadd (fadd (fmul (Finite (of_int (int_of_digits hh))) (Finite 3600))
                           (fmul (Finite (of_int (int_of_digits mm))) (Finite 60)))
                     (round_double (decimal ss fs)))"
proof -
  have d: "list_all is_digit hh" "list_all is_digit mm" "list_all is_digit ss" "list_all is_digit fs"
    using assms(5) by simp_all
  have ne: "hh \<noteq> []" "mm \<noteq> []" "ss \<noteq> []" using assms(1-3) by auto
  have c3: "CHR '':'' \<notin> set (ss @ CHR ''.'' # fs)"
    using digits_no_colon [OF d(3)] digits_no_colon [OF d(4)] by simp
  have "split CHR '':'' (hh @ CHR '':'' # (mm @ CHR '':'' # (ss @ CHR ''.'' # fs)))
          = [hh, mm, ss @ CHR ''.'' # fs]"
    using digits_no_colon [OF d(1)] digits_no_colon [OF d(2)] c3
    by (simp add: split_at_sep split_no_sep)
  then have parts: "split CHR '':'' (hh @ '':'' @ mm @ '':'' @ ss @ ''.'' @ fs)
          = [hh, mm, ss @ CHR ''.'' # fs]"
    by simp
  have "\<bar>int_of_digits hh\<bar> < 10 ^ length hh" "\<bar>int_of_digits mm\<bar> < 10 ^ length mm"
    using int_of_digits_bounds [OF d(1)] int_of_digits_bounds [OF d(2)] by simp_all
  then have small: "\<bar>int_of_digits hh\<bar> < 2 ^ 53" "\<bar>int_of_digits mm\<bar> < 2 ^ 53"
    using assms(1,2) by simp_all
  have fh: "float_of_string hh = Inr (Finite (of_int (int_of_digits hh)))"
    using float_of_digits [OF ne(1) d(1)] round_double_int [OF small(1)] by simp
  have fm: "float_of_string mm = Inr (Finite (of_int (int_of_digits mm)))"
    using float_of_digits [OF ne(2) d(2)] round_double_int [OF small(2)] by simp
  have fs: "float_of_string (ss @ CHR ''.'' # fs) = Inr (round_double (decimal ss fs))"
    using float_of_decimal [OF ne(3) d(3) assms(4) d(4)] by (simp add: decimal_def)
  show ?thesis
    unfolding seconds_of_parts_def parts Let_def
    by (simp add: getitem_def fh fm fs del: fadd.simps fmul.simps)
qed


lemma time_867: "time_str_to_seconds ''00:14:27.799'' = Inr (round_double (867799 / 1000))"
  by code_simp

lemma double_867: "round_double (867799 / 1000) = Finite (954155091072385 / 1099511627776)"
  by code_simp

lemma digits_value_867:
  "of_int (int_of_digits ''00'') * 3600 + of_int (int_of_digits ''14'') * 60
     + decimal ''27'' ''799'' = (867799 / 1000 :: rat)"
  by (simp add: decimal_def int_of_digits_def digit_val_def code_def)


subsection \<open>Matching\<close>

lemma match_lit_eq_Some: "match_lit p s = Some r \<longleftrightarrow> s = p @ r"
  by (induction p s rule: match_lit.induct) auto

lemma match_lit_append [simp]: "match_lit p (p @ r) = Some r"
  by (simp add: match_lit_eq_Some)

lemma re_search_here: "m s = Some g \<Longrightarrow> re_search m s = Some g"
  by (cases s) simp_all

lemma re_search_skip:
  "(\<forall>i < length pre. m (drop i (pre @ s)) = None) \<Longrightarrow> re_search m (pre @ s) = re_search m s"
proof (induction pre)
  case Nil
  show ?case by simp
next
  case (Cons c pre)
  have "m (drop 0 ((c # pre) @ s)) = None" using Cons.prems by blast
  then have here: "m (c # pre @ s) = None" by simp
  have "\<forall>i < length pre. m (drop i (pre @ s)) = None"
  proof (intro allI impI)
    fix i assume "i < length pre"
    then have "m (drop (Suc i) ((c # pre) @ s)) = None" using Cons.prems by auto
    then show "m (drop i (pre @ s)) = None" by simp
  qed
  then show ?case using Cons.IH here by simp
qed

lemma re_search_Some:
  "re_search m s = Some g \<Longrightarrow> \<exists>pre suf. s = pre @ suf \<and> m suf = Some g"
proof (induction s)
  case Nil
  then show ?case by simp
next
  case (Cons c s)
  show ?case
  proof (cases "m (c # s)")
    case (Some g')
    with Cons.prems have "m (c # s) = Some g" by simp
    then show ?thesis by (intro exI [of _ "[]"] exI [of _ "c # s"]) simp
  next
    case None
    with Cons.prems have "re_search m s = Some g" by simp
    then obtain pre suf where "s = pre @ suf" "m suf = Some g" using Cons.IH by blast
    then show ?thesis by (intro exI [of _ "c # pre"] exI [of _ suf]) simp
  qed
qed

lemma re_search_None:
  "(\<forall>suf. (\<exists>pre. s = pre @ suf) \<longrightarrow> m suf = None) \<Longrightarrow> re_search m s = None"
proof (rule ccontr)
  assume a: "\<forall>suf. (\<exists>pre. s = pre @ suf) \<longrightarrow> m suf = None" and "re_search m s \<noteq> None"
  then obtain g where g: "re_search m s = Some g" by auto
  from re_search_Some [OF g] obtain pre suf where "s = pre @ suf" "m suf = Some g" by blast
  with a show False by auto
qed

lemma run1_eq_Some:
  "run1 cls s = Some (g, r) \<longleftrightarrow> g = takeWhile cls s \<and> r = dropWhile cls s \<and> g \<noteq> []"
  by (auto simp: run1_def)

lemma run1_Some_D:
  assumes "run1 cls s = Some (g, r)"
  shows "g \<noteq> []" and "list_all cls g" and "s = g @ r"
  using assms by (auto simp: run1_def list_all_iff dest: set_takeWhileD split: if_splits)

lemma run1_stop:
  "g \<noteq> [] \<Longrightarrow> list_all cls g \<Longrightarrow> r = [] \<or> \<not> cls (hd r) \<Longrightarrow> run1 cls (g @ r) = Some (g, r)"
proof -
  assume g: "g \<noteq> []" "list_all cls g" and r: "r = [] \<or> \<not> cls (hd r)"
  have t: "takeWhile cls r = []" using r by (cases r) auto
  have "takeWhile cls (g @ r) = g"
    using g(2) t by (simp add: takeWhile_append2 list_all_iff)
  moreover have "dropWhile cls (g @ r) = r"
    using g(2) r by (cases r) (auto simp: dropWhile_append2 list_all_iff)
  ultimately show ?thesis using g(1) by (simp add: run1_def)
qed

subsection \<open>The groups of the offset pattern\<close>

lemma opt_unit_Some:
  "opt_unit u s = (Some g, r) \<Longrightarrow> g \<noteq> [] \<and> list_all is_digit g \<and> s = g @ u # r"
  by (auto simp: opt_unit_def match_lit_eq_Some split: option.splits Option.bind_splits
      dest: run1_Some_D)

lemma opt_unit_None: "opt_unit u s = (None, r) \<Longrightarrow> r = s"
  by (auto simp: opt_unit_def split: option.splits)

lemma opt_frac_cases:
  "opt_frac s = (fr, r) \<Longrightarrow>
     (fr = [] \<and> r = s) \<or> (\<exists>fs. fs \<noteq> [] \<and> list_all is_digit fs \<and> fr = CHR ''.'' # fs \<and> s = fr @ r)"
  by (auto simp: opt_frac_def match_lit_eq_Some split: option.splits Option.bind_splits
      dest: run1_Some_D)

lemma opt_seconds_Some:
  assumes "opt_seconds s = (Some g, r)"
  shows "\<exists>ds fr. ds \<noteq> [] \<and> list_all is_digit ds \<and> g = ds @ fr \<and> s = g @ CHR ''s'' # r \<and>
           (fr = [] \<or> (\<exists>fs. fs \<noteq> [] \<and> list_all is_digit fs \<and> fr = CHR ''.'' # fs))"
proof -
  from assms obtain ds r0 fr r1 where 1: "run1 is_digit s = Some (ds, r0)"
    and 2: "opt_frac r0 = (fr, r1)" and 3: "match_lit ''s'' r1 = Some r" and g: "g = ds @ fr"
    by (auto simp: opt_seconds_def split: option.splits Option.bind_splits prod.splits)
  from run1_Some_D [OF 1] have ds: "ds \<noteq> []" "list_all is_digit ds" "s = ds @ r0" .
  from 3 have r1: "r1 = CHR ''s'' # r" by (simp add: match_lit_eq_Some)
  from opt_frac_cases [OF 2] show ?thesis
    using ds g r1 by auto
qed

subsection \<open>Signs\<close>

lemma fmul_nonneg: "fnonneg x \<Longrightarrow> 0 < c \<Longrightarrow> fnonneg (fmul x (Finite c))"
  by (cases x) (auto intro: round_double_nonneg)

lemma fadd_nonneg: "fnonneg x \<Longrightarrow> fnonneg y \<Longrightarrow> fnonneg (fadd x y)"
  by (cases x; cases y) (auto intro: round_double_nonneg)

lemma float_of_digits_nonneg:
  assumes "ds \<noteq> []" and "list_all is_digit ds"
  shows "\<exists>v. float_of_string ds = Inr v \<and> fnonneg v"
  using float_of_digits [OF assms] int_of_digits_bounds [OF assms(2)]
  by (simp add: round_double_nonneg)

lemma float_of_decimal_nonneg:
  assumes "ip \<noteq> []" and "list_all is_digit ip" and "fp \<noteq> []" and "list_all is_digit fp"
  shows "\<exists>v. float_of_string (ip @ CHR ''.'' # fp) = Inr v \<and> fnonneg v"
proof -
  have "list_all is_digit (ip @ fp)" using assms by simp
  then have "0 \<le> decimal ip fp" by (rule decimal_bounds)
  then show ?thesis
    using float_of_decimal [OF assms] by (simp add: decimal_def round_double_nonneg)
qed

lemma group_float_unit:
  "opt_unit u s = (g, r) \<Longrightarrow> \<exists>v. group_float g = Inr v \<and> fnonneg v"
proof (cases g)
  case None
  then show ?thesis by (simp add: group_float_def)
next
  case (Some t)
  assume "opt_unit u s = (g, r)"
  with Some have "t \<noteq> []" "list_all is_digit t" using opt_unit_Some by blast+
  then show ?thesis using Some float_of_digits_nonneg [of t] by (simp add: group_float_def)
qed

lemma group_float_seconds:
  "opt_seconds s = (g, r) \<Longrightarrow> \<exists>v. group_float g = Inr v \<and> fnonneg v"
proof (cases g)
  case None
  then show ?thesis by (simp add: group_float_def)
next
  case (Some t)
  assume "opt_seconds s = (g, r)"
  with Some obtain ds fr where ds: "ds \<noteq> []" "list_all is_digit ds" "t = ds @ fr"
    and fr: "fr = [] \<or> (\<exists>fs. fs \<noteq> [] \<and> list_all is_digit fs \<and> fr = CHR ''.'' # fs)"
    using opt_seconds_Some by blast
  from fr show ?thesis
  proof
    assume "fr = []"
    then show ?thesis using Some ds float_of_digits_nonneg [of ds] by (simp add: group_float_def)
  next
    assume "\<exists>fs. fs \<noteq> [] \<and> list_all is_digit fs \<and> fr = CHR ''.'' # fs"
    then obtain fs where "fs \<noteq> []" "list_all is_digit fs" "fr = CHR ''.'' # fs" by blast
    then show ?thesis
      using Some ds float_of_decimal_nonneg [of ds fs] by (simp add: group_float_def)
  qed
qed

lemma offset_of_content_nonneg: "\<exists>v. offset_of_content content = Inr v \<and> fnonneg v"
proof (cases "re_search start_time_at content")
  case None
  then show ?thesis by (simp add: offset_of_content_def)
next
  case (Some g)
  obtain g1 r1 where 1: "opt_unit CHR ''h'' (strip g) = (g1, r1)" by (cases "opt_unit CHR ''h'' (strip g)")
  obtain g2 r2 where 2: "opt_unit CHR ''m'' r1 = (g2, r2)" by (cases "opt_unit CHR ''m'' r1")
  obtain g3 r3 where 3: "opt_seconds r2 = (g3, r3)" by (cases "opt_seconds r2")
  obtain h where h: "group_float g1 = Inr h" "fnonneg h" using group_float_unit [OF 1] by blast
  obtain m where m: "group_float g2 = Inr m" "fnonneg m" using group_float_unit [OF 2] by blast
  obtain s where s: "group_float g3 = Inr s" "fnonneg s" using group_float_seconds [OF 3] by blast
  have "fnonneg (fadd (fadd (fmul h (Finite 3600)) (fmul m (Finite 60))) s)"
    using h(2) m(2) s(2) by (intro fadd_nonneg fmul_nonneg) simp_all
  then show ?thesis
    using Some 1 2 3 h(1) m(1) s(1) by (simp add: offset_of_content_def hms_match_def)
qed

subsection \<open>The assignment pattern\<close>

lemma not_space [simp]: "\<not> is_space CHR ''=''" "\<not> is_space dquote" "\<not> is_space CHR ''h''"
  "\<not> is_space CHR ''m''" "\<not> is_space CHR ''s''"
  by (simp_all add: is_space_def code_def dquote_def)

lemma dropWhile_spaces: "list_all is_space w \<Longrightarrow> \<not> is_space c \<Longrightarrow> dropWhile is_space (w @ c # r) = c # r"
  by (induction w) simp_all

lemma start_time_at_assignment:
  assumes "is_assignment s v"
  shows "start_time_at s = Some v"
proof -
  from assms obtain w1 w2 post where s: "s = ''START_TIME'' @ w1 @ ''='' @ w2 @ [dquote] @ v @ [dquote] @ post"
    and w: "list_all is_space w1" "list_all is_space w2" and v: "v \<noteq> []" "dquote \<notin> set v"
    unfolding is_assignment_def by blast
  have 1: "match_lit ''START_TIME'' s = Some (w1 @ CHR ''='' # w2 @ dquote # v @ dquote # post)"
    by (simp add: match_lit_eq_Some s)
  have 2: "dropWhile is_space (w1 @ CHR ''='' # w2 @ dquote # v @ dquote # post)
             = CHR ''='' # w2 @ dquote # v @ dquote # post"
    using w(1) by (simp add: dropWhile_spaces)
  have 3: "dropWhile is_space (w2 @ dquote # v @ dquote # post) = dquote # v @ dquote # post"
    using w(2) by (simp add: dropWhile_spaces)
  have 4: "run1 (\<lambda>c. c \<noteq> dquote) (v @ dquote # post) = Some (v, dquote # post)"
    using v by (intro run1_stop) (auto simp: list_all_iff)
  show ?thesis
    unfolding start_time_at_def 1 by (simp add: 2 3 4)
qed

lemma spaces_prefix: "\<exists>w. s = w @ dropWhile is_space s \<and> list_all is_space w"
  by (intro exI [of _ "takeWhile is_space s"]) (auto simp: list_all_iff dest: set_takeWhileD)

lemma start_time_at_Some:
  assumes "start_time_at s = Some v"
  shows "is_assignment s v"
proof -
  from assms obtain r0 r1 r2 r3 r4 where 0: "match_lit ''START_TIME'' s = Some r0"
    and 1: "match_lit ''='' (dropWhile is_space r0) = Some r1"
    and 2: "match_lit [dquote] (dropWhile is_space r1) = Some r2"
    and 3: "run1 (\<lambda>c. c \<noteq> dquote) r2 = Some (v, r3)"
    and 4: "match_lit [dquote] r3 = Some r4"
    by (auto simp: start_time_at_def split: Option.bind_splits)
  obtain w1 where w1: "r0 = w1 @ dropWhile is_space r0" "list_all is_space w1"
    using spaces_prefix by blast
  obtain w2 where w2: "r1 = w2 @ dropWhile is_space r1" "list_all is_space w2"
    using spaces_prefix by blast
  from run1_Some_D [OF 3] have v: "v \<noteq> []" "list_all (\<lambda>c. c \<noteq> dquote) v" "r2 = v @ r3" .
  have "s = ''START_TIME'' @ r0" using 0 by (simp add: match_lit_eq_Some)
  moreover have "dropWhile is_space r0 = ''='' @ r1" using 1 by (simp add: match_lit_eq_Some)
  moreover have "dropWhile is_space r1 = [dquote] @ r2" using 2 by (simp add: match_lit_eq_Some)
  moreover have "r3 = [dquote] @ r4" using 4 by (simp add: match_lit_eq_Some)
  ultimately have "s = ''START_TIME'' @ w1 @ ''='' @ w2 @ [dquote] @ v @ [dquote] @ r4"
    using w1(1) w2(1) v(3) by (metis append_assoc)
  moreover have "dquote \<notin> set v" using v(2) by (auto simp: list_all_iff)
  ultimately show ?thesis
    unfolding is_assignment_def using w1(2) w2(2) v(1) by blast
qed

lemma start_time_at_eq: "start_time_at s = Some v \<longleftrightarrow> is_assignment s v"
  using start_time_at_assignment start_time_at_Some by blast

lemma no_assignment_search:
  assumes "\<forall>pre suf v. content = pre @ suf \<longrightarrow> \<not> is_assignment suf v"
  shows "re_search start_time_at content = None"
proof (rule re_search_None, intro allI impI)
  fix suf assume "\<exists>pre. content = pre @ suf"
  then have "\<forall>v. \<not> is_assignment suf v" using assms by blast
  then have "\<forall>v. start_time_at suf \<noteq> Some v" by (simp add: start_time_at_eq)
  then show "start_time_at suf = None" by (cases "start_time_at suf") auto
qed

lemma first_assignment_search:
  assumes "content = pre @ suf" and "is_assignment suf v"
    and "\<forall>i < length pre. \<forall>v'. \<not> is_assignment (drop i content) v'"
  shows "re_search start_time_at content = Some v"
proof -
  have "\<forall>i < length pre. start_time_at (drop i (pre @ suf)) = None"
  proof (intro allI impI)
    fix i assume "i < length pre"
    then have "\<forall>v'. start_time_at (drop i content) \<noteq> Some v'"
      using assms(3) by (simp add: start_time_at_eq)
    then show "start_time_at (drop i (pre @ suf)) = None"
      unfolding assms(1) by (cases "start_time_at (drop i (pre @ suf))") auto
  qed
  then have "re_search start_time_at (pre @ suf) = re_search start_time_at suf"
    by (rule re_search_skip)
  also have "\<dots> = Some v"
    using assms(2) by (intro re_search_here start_time_at_assignment)
  finally show ?thesis by (simp add: assms(1))
qed

subsection \<open>The groups of a well-formed value\<close>


lemma opt_unit_Nil [simp]: "opt_unit u [] = (None, [])"
  by (simp add: opt_unit_def run1_def)



lemma opt_seconds_Nil [simp]: "opt_seconds [] = (None, [])"
  by (simp add: opt_seconds_def run1_def)











lemma dquote_neq [simp]:
  "dquote \<noteq> CHR ''h''" "dquote \<noteq> CHR ''m''" "dquote \<noteq> CHR ''s''" "dquote \<noteq> CHR ''.''"
  by (simp_all add: dquote_def)



lemma parse_ini_offset_read:
  "rd path = Some content \<Longrightarrow> offset_of_content content = Inr v \<Longrightarrow>
   parse_ini_offset rd path = Inr v"
  by (simp add: parse_ini_offset_def read_file_def try_except_def)

lemma assignment_has_S: "is_assignment suf v \<Longrightarrow> CHR ''S'' \<in> set suf"
  by (auto simp: is_assignment_def)




subsection \<open>Values without a leading component\<close>

lemma opt_unit_cases: "(\<exists>g r. opt_unit u s = (Some g, r)) \<or> opt_unit u s = (None, s)"
  by (auto simp: opt_unit_def split: option.splits)

lemma opt_seconds_cases: "(\<exists>g r. opt_seconds s = (Some g, r)) \<or> opt_seconds s = (None, s)"
  by (auto simp: opt_seconds_def split: option.splits)

lemma hms_match_no_component:
  assumes "\<not> begins_with_component t"
  shows "hms_match t = (None, None, None)"
proof -
  have h: "opt_unit CHR ''h'' t = (None, t)"
  proof -
    { fix g r assume "opt_unit CHR ''h'' t = (Some g, r)"
      then have "g \<noteq> [] \<and> list_all is_digit g \<and> t = g @ ''h'' @ r"
        using opt_unit_Some by fastforce
      then have "begins_with_component t" unfolding begins_with_component_def by blast
      with assms have False by simp }
    then show ?thesis using opt_unit_cases [of "CHR ''h''" t] by blast
  qed
  have m: "opt_unit CHR ''m'' t = (None, t)"
  proof -
    { fix g r assume "opt_unit CHR ''m'' t = (Some g, r)"
      then have "g \<noteq> [] \<and> list_all is_digit g \<and> t = g @ ''m'' @ r"
        using opt_unit_Some by fastforce
      then have "begins_with_component t" unfolding begins_with_component_def by blast
      with assms have False by simp }
    then show ?thesis using opt_unit_cases [of "CHR ''m''" t] by blast
  qed
  have s: "opt_seconds t = (None, t)"
  proof -
    { fix g r assume "opt_seconds t = (Some g, r)"
      then obtain ds fr where ds: "ds \<noteq> []" "list_all is_digit ds" "g = ds @ fr"
        "t = g @ CHR ''s'' # r"
        and fr: "fr = [] \<or> (\<exists>fs. fs \<noteq> [] \<and> list_all is_digit fs \<and> fr = CHR ''.'' # fs)"
        using opt_seconds_Some by blast
      from fr have "begins_with_component t"
      proof
        assume "fr = []"
        then have "t = ds @ ''s'' @ r" using ds by simp
        then show ?thesis unfolding begins_with_component_def using ds(1,2) by blast
      next
        assume "\<exists>fs. fs \<noteq> [] \<and> list_all is_digit fs \<and> fr = CHR ''.'' # fs"
        then obtain fs where fs: "fs \<noteq> []" "list_all is_digit fs" "fr = CHR ''.'' # fs" by blast
        then have "t = ds @ ''.'' @ fs @ ''s'' @ r" using ds by simp
        then show ?thesis unfolding begins_with_component_def using ds(1,2) fs(1,2) by blast
      qed
      with assms have False by simp }
    then show ?thesis using opt_seconds_cases [of t] by blast
  qed
  show ?thesis by (simp add: hms_match_def h m s)
qed

lemma offset_no_component:
  assumes "re_search start_time_at content = Some v" and "\<not> begins_with_component (strip v)"
  shows "offset_of_content content = Inr (Finite 0)"
proof -
  have z: "fadd (fadd (fmul (Finite 0) (Finite 3600)) (fmul (Finite 0) (Finite 60))) (Finite 0) = Finite 0"
    by (simp add: round_double_def)
  show ?thesis
    unfolding offset_of_content_def assms(1)
    using hms_match_no_component [OF assms(2)] z
    by (simp add: group_float_def del: fadd.simps fmul.simps)
qed

subsection \<open>The failures of the program\<close>

lemma get_video_duration_Inr:
  "get_video_duration probe = Inr d \<Longrightarrow>
   \<exists>output. probe = Inr output \<and> float_of_string (strip output) = Inr d"
  by (cases probe; cases "float_of_string (strip (projr probe))")
     (auto simp: get_video_duration_def try_except_def split: if_splits)

lemma main_Inr:
  assumes "main sys video probe stderr = Inr printed"
  shows "find_ffmpeg sys \<noteq> None \<and> find_ffprobe sys \<noteq> None \<and>
         (\<exists>output d. probe = Inr output \<and> float_of_string (strip output) = Inr d \<and>
            (\<exists>res. returned (detect_black_frames stderr d) = Inr res))"
proof -
  from assms obtain d res where "get_video_duration probe = Inr d"
    and r: "returned (detect_black_frames stderr d) = Inr res"
    and f: "find_ffmpeg sys \<noteq> None" "find_ffprobe sys \<noteq> None"
    by (auto simp: main_def bind_eq_Inr split: option.splits if_splits prod.splits)
  then show ?thesis using get_video_duration_Inr by blast
qed

lemma two_digits_Some:
  "two_digits s = Some (g, r) \<Longrightarrow> length g = 2 \<and> list_all is_digit g \<and> s = g @ r"
  by (cases s rule: two_digits.cases) (auto split: if_splits)

lemma time_pattern_at_Some:
  assumes "time_pattern_at s = Some g"
  shows "\<exists>hh mm ss fs. length hh = 2 \<and> length mm = 2 \<and> length ss = 2 \<and> fs \<noteq> [] \<and>
           list_all is_digit (hh @ mm @ ss @ fs) \<and> g = hh @ '':'' @ mm @ '':'' @ ss @ ''.'' @ fs"
proof -
  from assms obtain r0 hh r1 r2 mm r3 r4 ss r5 r6 fs r7 where
    "two_digits r0 = Some (hh, r1)" "two_digits r2 = Some (mm, r3)" "two_digits r4 = Some (ss, r5)"
    "run1 is_digit r6 = Some (fs, r7)" and g: "g = hh @ '':'' @ mm @ '':'' @ ss @ ''.'' @ fs"
    by (auto simp: time_pattern_at_def split: Option.bind_splits)
  then have "length hh = 2 \<and> list_all is_digit hh" "length mm = 2 \<and> list_all is_digit mm"
    "length ss = 2 \<and> list_all is_digit ss" "fs \<noteq> [] \<and> list_all is_digit fs"
    using two_digits_Some run1_Some_D by blast+
  then show ?thesis using g by (intro exI [of _ hh] exI [of _ mm] exI [of _ ss] exI [of _ fs]) simp
qed

lemma time_token_parses:
  assumes "re_search time_pattern_at line = Some ts"
  shows "\<exists>v. seconds_of_parts ts = Inr v"
proof -
  from re_search_Some [OF assms] obtain suf where "time_pattern_at suf = Some ts" by blast
  from time_pattern_at_Some [OF this] obtain hh mm ss fs where
    "length hh = 2" "length mm = 2" "length ss = 2" "fs \<noteq> []"
    "list_all is_digit (hh @ mm @ ss @ fs)" "ts = hh @ '':'' @ mm @ '':'' @ ss @ ''.'' @ fs"
    by blast
  then show ?thesis using seconds_of_parts_valid [of hh mm ss fs] by simp
qed

lemma format_zero: "format_time_full (Finite 0) = Inr ''00:00:00:000''"
  by code_simp

lemma component_letters:
  "begins_with_component t \<Longrightarrow> CHR ''h'' \<in> set t \<or> CHR ''m'' \<in> set t \<or> CHR ''s'' \<in> set t"
  by (auto simp: begins_with_component_def)


lemma main_demo:
  "main demo_os ''video.ts'' (Inr ''10.0'') []
     = Inr [NoIniFile, TotalDuration ''00:00:10:000'', Newline, NoSequence, SequenceCount 0]"
  by code_simp

lemma time_token_demo:
  "re_search time_pattern_at ''frame=1 time=00:00:01.00 bitrate'' = Some ''00:00:01.00''"
  by code_simp

lemma strip_22_5: "strip ''22.5'' = ''22.5''"
  by code_simp


subsection \<open>Lines of the diagnostic stream\<close>











subsection \<open>The token of the example\<close>

lemma char_classes [simp]:
  "is_num_char CHR ''5''" "is_num_char CHR ''.''" "is_num_char CHR ''0''" "is_num_char CHR ''7''"
  "is_num_char CHR ''2''" "\<not> is_num_char CHR '' ''" "is_space CHR '' ''" "\<not> is_space CHR ''b''"
  by (simp_all add: is_num_char_def is_digit_def is_space_def code_def)










section \<open>Properties\<close>

text \<open>
  Claim C1.  The docstring of \<open>format_time_full\<close> gives the example
  \<open>867.799 => "00:14:27:799"\<close>.  The float nearest to 867.799 lies just below it, so
  \<open>(seconds - int(seconds)) * 1000\<close> is a float just below 799 and \<open>int\<close> truncates
  it to 798: the function returns \<open>"00:14:27:798"\<close> on that input.
\<close>

theorem format_time_full_867_799:
  "format_time_full (round_double (867799 / 1000)) = Inr ''00:14:27:798''"
  by code_simp

text \<open>
  Claim C5.  \<open>find_ffmpeg\<close> looks in three places, in this order, and returns the first
  hit.

  First the environment variable.  When \<open>FFMPEG_PATH\<close> is set to a non-empty path that
  is not a directory and is an existing file, that path is returned; when it is set to a
  directory that holds the executable, the executable in that directory is returned.
  Nothing is assumed about the bundled \<open>bin\<close> directory or the search path in these two
  cases: they are not consulted, whether or not they hold a copy.

  Then the bundled copy.  When the variable is unset, empty, or names no existing file
  (the path itself, or the executable inside it when it is a directory), and
  \<open>bin/ffmpeg\<close> under the base directory is an existing file, that file is returned,
  whatever \<open>shutil.which\<close> would answer.

  Then the search path.  When neither of the first two places holds the executable, the
  result is the non-empty answer of \<open>shutil.which("ffmpeg")\<close>, and it is \<open>None\<close> when
  \<open>which\<close> finds nothing.

  The statement is over the operating-system calls of the source only: \<open>os.getenv\<close>,
  \<open>os.path.isdir\<close>, \<open>os.path.isfile\<close>, \<open>os.path.join\<close> and \<open>shutil.which\<close>.
\<close>

theorem find_ffmpeg_precedence:
  "(getenv sys ''FFMPEG_PATH'' = Some env_path \<and> env_path \<noteq> [] \<and>
      \<not> isdir sys env_path \<and> isfile sys env_path \<longrightarrow>
    find_ffmpeg sys = Some env_path) \<and>
   (getenv sys ''FFMPEG_PATH'' = Some env_path \<and> env_path \<noteq> [] \<and>
      isdir sys env_path \<and> isfile sys (join sys env_path (exe sys ''ffmpeg'')) \<longrightarrow>
    find_ffmpeg sys = Some (join sys env_path (exe sys ''ffmpeg''))) \<and>
   ((\<forall>e. getenv sys ''FFMPEG_PATH'' = Some e \<and> e \<noteq> [] \<longrightarrow>
         \<not> isfile sys (if isdir sys e then join sys e (exe sys ''ffmpeg'') else e)) \<and>
      isfile sys (join sys (join sys (base_dir sys) ''bin'') (exe sys ''ffmpeg'')) \<longrightarrow>
    find_ffmpeg sys = Some (join sys (join sys (base_dir sys) ''bin'') (exe sys ''ffmpeg''))) \<and>
   ((\<forall>e. getenv sys ''FFMPEG_PATH'' = Some e \<and> e \<noteq> [] \<longrightarrow>
         \<not> isfile sys (if isdir sys e then join sys e (exe sys ''ffmpeg'') else e)) \<and>
      \<not> isfile sys (join sys (join sys (base_dir sys) ''bin'') (exe sys ''ffmpeg'')) \<and>
      which sys ''ffmpeg'' = Some p \<and> p \<noteq> [] \<longrightarrow>
    find_ffmpeg sys = Some p) \<and>
   ((\<forall>e. getenv sys ''FFMPEG_PATH'' = Some e \<and> e \<noteq> [] \<longrightarrow>
         \<not> isfile sys (if isdir sys e then join sys e (exe sys ''ffmpeg'') else e)) \<and>
      \<not> isfile sys (join sys (join sys (base_dir sys) ''bin'') (exe sys ''ffmpeg'')) \<and>
      (which sys ''ffmpeg'' = None \<or> which sys ''ffmpeg'' = Some []) \<longrightarrow>
    find_ffmpeg sys = None)"
proof -
  have env: "(\<forall>e. getenv sys ''FFMPEG_PATH'' = Some e \<and> e \<noteq> [] \<longrightarrow>
         \<not> isfile sys (if isdir sys e then join sys e (exe sys ''ffmpeg'') else e))
       \<Longrightarrow> env_ffmpeg sys = None"
    by (auto simp: env_ffmpeg_def Let_def split: option.splits)
  show ?thesis
  proof (intro conjI impI)
    assume "getenv sys ''FFMPEG_PATH'' = Some env_path \<and> env_path \<noteq> [] \<and>
      \<not> isdir sys env_path \<and> isfile sys env_path"
    then show "find_ffmpeg sys = Some env_path"
      by (simp add: find_ffmpeg_def env_ffmpeg_def)
  next
    assume "getenv sys ''FFMPEG_PATH'' = Some env_path \<and> env_path \<noteq> [] \<and>
      isdir sys env_path \<and> isfile sys (join sys env_path (exe sys ''ffmpeg''))"
    then show "find_ffmpeg sys = Some (join sys env_path (exe sys ''ffmpeg''))"
      by (simp add: find_ffmpeg_def env_ffmpeg_def)
  next
    assume a: "(\<forall>e. getenv sys ''FFMPEG_PATH'' = Some e \<and> e \<noteq> [] \<longrightarrow>
         \<not> isfile sys (if isdir sys e then join sys e (exe sys ''ffmpeg'') else e)) \<and>
      isfile sys (join sys (join sys (base_dir sys) ''bin'') (exe sys ''ffmpeg''))"
    then have "env_ffmpeg sys = None" using env by blast
    then show "find_ffmpeg sys = Some (join sys (join sys (base_dir sys) ''bin'') (exe sys ''ffmpeg''))"
      using a by (simp add: find_ffmpeg_def bundled_ffmpeg_def)
  next
    assume a: "(\<forall>e. getenv sys ''FFMPEG_PATH'' = Some e \<and> e \<noteq> [] \<longrightarrow>
         \<not> isfile sys (if isdir sys e then join sys e (exe sys ''ffmpeg'') else e)) \<and>
      \<not> isfile sys (join sys (join sys (base_dir sys) ''bin'') (exe sys ''ffmpeg'')) \<and>
      which sys ''ffmpeg'' = Some p \<and> p \<noteq> []"
    then have "env_ffmpeg sys = None" using env by blast
    then show "find_ffmpeg sys = Some p"
      using a by (simp add: find_ffmpeg_def bundled_ffmpeg_def in_path_def)
  next
    assume a: "(\<forall>e. getenv sys ''FFMPEG_PATH'' = Some e \<and> e \<noteq> [] \<longrightarrow>
         \<not> isfile sys (if isdir sys e then join sys e (exe sys ''ffmpeg'') else e)) \<and>
      \<not> isfile sys (join sys (join sys (base_dir sys) ''bin'') (exe sys ''ffmpeg'')) \<and>
      (which sys ''ffmpeg'' = None \<or> which sys ''ffmpeg'' = Some [])"
    then have "env_ffmpeg sys = None" using env by blast
    then show "find_ffmpeg sys = None"
      using a by (auto simp: find_ffmpeg_def bundled_ffmpeg_def in_path_def)
  qed
qed

text \<open>
  One operating system for each case.  In \<open>demo_os\<close> the variable names a directory
  holding ffmpeg and in \<open>direct_os\<close> the executable itself; in both the bundled directory
  and the search path hold a copy too, and the variable wins.  In \<open>bundled_os\<close> the
  bundled copy wins over the search path.  In \<open>path_os\<close> the answer of \<open>which\<close> is
  returned, and in \<open>bare_os\<close> nothing is found.
\<close>

theorem find_ffmpeg_precedence_witness:
  "find_ffmpeg demo_os = Some ''/opt/ff/ffmpeg'' \<and>
   isfile demo_os (bundled_ffmpeg demo_os) \<and>
   which demo_os ''ffmpeg'' = Some ''/usr/bin/ffmpeg'' \<and>
   find_ffmpeg direct_os = Some ''/opt/ff'' \<and>
   isfile direct_os (bundled_ffmpeg direct_os) \<and>
   which direct_os ''ffmpeg'' = Some ''/usr/bin/ffmpeg'' \<and>
   find_ffmpeg bundled_os = Some ''/app/bin/ffmpeg'' \<and>
   which bundled_os ''ffmpeg'' = Some ''/usr/bin/ffmpeg'' \<and>
   find_ffmpeg path_os = Some ''/usr/bin/ffmpeg'' \<and>
   which path_os ''ffmpeg'' = Some ''/usr/bin/ffmpeg'' \<and>
   getenv path_os ''FFMPEG_PATH'' = Some ''/missing/ffmpeg'' \<and>
   find_ffmpeg bare_os = None \<and>
   which bare_os ''ffmpeg'' = None"
  using find_ffmpeg_precedence [of demo_os "''/opt/ff''"]
    find_ffmpeg_precedence [of direct_os "''/opt/ff''"]
    find_ffmpeg_precedence [of bundled_os]
    find_ffmpeg_precedence [of path_os _ "''/usr/bin/ffmpeg''"]
    find_ffmpeg_precedence [of bare_os]
  by (simp add: demo_os_def direct_os_def bundled_os_def path_os_def bare_os_def exe_def
      bundled_ffmpeg_def)

text \<open>
  Claim C6.  When the interrupt arrives while the stream is being read, no list is
  returned, whatever the stream held; and when the lines read before it were processed
  without an exception, the detector terminates the child process and leaves through
  \<open>sys.exit\<close> with the message that the user interrupted the run.
\<close>

theorem interrupt_returns_nothing:
  assumes "Interrupt \<in> set events"
  shows "(\<exists>e. returned (detect_black_frames events td) = Inl e) \<and>
         (\<forall>ls rest st.
            events = map Line ls @ Interrupt # rest \<longrightarrow>
            stream_loop td (map Line ls) \<lparr>black_frames = [], stdout = []\<rparr> = Inr st \<longrightarrow>
            detect_black_frames events td =
              \<lparr>child_terminated = True, returned = Inl (SystemExit Interrupted)\<rparr>)"
proof (intro conjI impI allI)
  obtain e where "stream_loop td events \<lparr>black_frames = [], stdout = []\<rparr> = Inl e"
    using assms stream_loop_interrupted by blast
  then show "\<exists>e. returned (detect_black_frames events td) = Inl e"
    by (simp add: detect_black_frames_def)
next
  fix ls rest st
  assume "events = map Line ls @ Interrupt # rest"
    and "stream_loop td (map Line ls) \<lparr>black_frames = [], stdout = []\<rparr> = Inr st"
  then have "stream_loop td events \<lparr>black_frames = [], stdout = []\<rparr> = Inl KeyboardInterrupt"
    by (simp add: stream_loop_append)
  then show "detect_black_frames events td =
        \<lparr>child_terminated = True, returned = Inl (SystemExit Interrupted)\<rparr>"
    by (simp add: detect_black_frames_def)
qed

theorem interrupt_returns_nothing_witness:
  "detect_black_frames
     [Line ''black_start:5.0 black_end:7.5 black_duration:2.5'', Interrupt, Line ''time=00:00:01.00'']
     (Finite 10)
   = \<lparr>child_terminated = True, returned = Inl (SystemExit Interrupted)\<rparr>"
proof -
  let ?E = "[Line ''black_start:5.0 black_end:7.5 black_duration:2.5'', Interrupt,
             Line ''time=00:00:01.00'']"
  have run: "stream_loop (Finite 10)
      (map Line [''black_start:5.0 black_end:7.5 black_duration:2.5''])
      \<lparr>black_frames = [], stdout = []\<rparr>
    = Inr \<lparr>black_frames = [\<lparr>start = Finite 5, end' = Finite (15 / 2), duration = Finite (5 / 2)\<rparr>],
           stdout = []\<rparr>"
    by code_simp
  have mem: "Interrupt \<in> set ?E"
    by simp
  have parts: "?E = map Line [''black_start:5.0 black_end:7.5 black_duration:2.5'']
                  @ Interrupt # [Line ''time=00:00:01.00'']"
    by simp
  have "\<forall>ls rest st.
            ?E = map Line ls @ Interrupt # rest \<longrightarrow>
            stream_loop (Finite 10) (map Line ls) \<lparr>black_frames = [], stdout = []\<rparr> = Inr st \<longrightarrow>
            detect_black_frames ?E (Finite 10) =
              \<lparr>child_terminated = True, returned = Inl (SystemExit Interrupted)\<rparr>"
    using interrupt_returns_nothing [OF mem, of "Finite 10"] by (rule conjunct2)
  then show ?thesis
    using parts run by blast
qed

text \<open>
  Claim C8.  The report is printed exactly when every time of every interval can be
  formatted, and it then consists of what was printed before, the header, one line per
  interval in the order of the list, and the count.  The line of an interval shows its
  start plus the offset, its end plus the offset, and its duration as it is: the offset
  does not enter the third field.  With no interval there is the line saying so, and
  the count 0.
\<close>

theorem report_applies_offset:
  "report offset results printed = Inr printed' \<longleftrightarrow>
     (\<exists>ls. length ls = length results \<and>
        (\<forall>i < length results.
           \<exists>debut fin duree.
             format_time_full (fadd (start (results ! i)) offset) = Inr debut \<and>
             format_time_full (fadd (end' (results ! i)) offset) = Inr fin \<and>
             format_time_full (duration (results ! i)) = Inr duree \<and>
             ls ! i = Sequence debut fin duree) \<and>
        printed' = printed @ (if results = [] then [NoSequence] else SequencesHeader # ls)
                     @ [SequenceCount (length results)])"
  by (auto simp: report_def bind_eq_Inr report_loop_eq list_all2_conv_all_nth report_line_eq)

theorem report_applies_offset_witness:
  "report (Finite 10) [\<lparr>start = Finite 5, end' = Finite (15 / 2), duration = Finite (5 / 2)\<rparr>] []
   = Inr [SequencesHeader, Sequence ''00:00:15:000'' ''00:00:17:500'' ''00:00:02:500'',
          SequenceCount 1]"
  using report_applies_offset
    [of "Finite 10" "[\<lparr>start = Finite 5, end' = Finite (15 / 2), duration = Finite (5 / 2)\<rparr>]" "[]"
        "[SequencesHeader, Sequence ''00:00:15:000'' ''00:00:17:500'' ''00:00:02:500'',
          SequenceCount 1]"]
    fmt_15 fmt_17_5 fmt_2_5
  by (simp add: exI [of _ "[Sequence ''00:00:15:000'' ''00:00:17:500'' ''00:00:02:500'']"])

text \<open>
  Claim C9, as stated: a string with fewer than three colon-separated fields, or with a
  field that \<open>float\<close> rejects, gives \<open>0.0\<close>.  The function reads the first three fields
  only, so a fourth field that is not numeric changes nothing:
  \<open>"1:2:3:x"\<close> gives \<open>3723.0\<close>.
\<close>

theorem time_str_to_seconds_extra_field:
  "split CHR '':'' ''1:2:3:x'' = [''1'', ''2'', ''3'', ''x''] \<and>
   float_of_string ''x'' = Inl ValueError \<and>
   time_str_to_seconds ''1:2:3:x'' = Inr (Finite 3723)"
  by code_simp

text \<open>
  Claim C9, amended.  \<open>time_str_to_seconds\<close> never raises, and it returns \<open>0.0\<close> for
  every string that has fewer than three colon-separated fields or whose first, second
  or third field is rejected by \<open>float\<close>.
\<close>

theorem time_str_to_seconds_invalid:
  "(\<exists>v. time_str_to_seconds s = Inr v) \<and>
   (length (split CHR '':'' s) < 3 \<or>
      (\<exists>i < 3. float_of_string (split CHR '':'' s ! i) = Inl ValueError) \<longrightarrow>
    time_str_to_seconds s = Inr (Finite 0))"
proof (intro conjI impI)
  show "\<exists>v. time_str_to_seconds s = Inr v"
    by (rule time_str_to_seconds_total)
next
  assume bad: "length (split CHR '':'' s) < 3 \<or>
      (\<exists>i < 3. float_of_string (split CHR '':'' s ! i) = Inl ValueError)"
  have "\<exists>e. seconds_of_parts s = Inl e"
  proof (cases "length (split CHR '':'' s) < 3")
    case True
    then show ?thesis
      unfolding seconds_of_parts_def Let_def
      by (auto simp: bind_def getitem_def split: sum.splits)
  next
    case False
    with bad obtain i where i: "i < 3" "float_of_string (split CHR '':'' s ! i) = Inl ValueError"
      by blast
    then have "i = 0 \<or> i = 1 \<or> i = 2" by auto
    with i False show ?thesis
      unfolding seconds_of_parts_def Let_def
      by (auto simp: bind_def getitem_def split: sum.splits)
  qed
  then obtain e where e: "seconds_of_parts s = Inl e" ..
  then have "is_Exception e" by (rule seconds_of_parts_error)
  with e show "time_str_to_seconds s = Inr (Finite 0)"
    by (simp add: time_str_to_seconds_def try_except_def)
qed

theorem time_str_to_seconds_invalid_witness:
  "time_str_to_seconds ''1:x:3'' = Inr (Finite 0) \<and> time_str_to_seconds ''12:34'' = Inr (Finite 0)"
  using time_str_to_seconds_invalid [of "''1:x:3''"] time_str_to_seconds_invalid [of "''12:34''"]
    float_x
  by (simp add: exI [of _ "1::nat"])

text \<open>
  Claim C2.  For every string \<open>HH:MM:SS.f\<close> made of two digits, a colon, two digits, a
  colon, two digits, a point and at least one digit, \<open>time_str_to_seconds\<close> returns a
  finite float that differs from \<open>HH * 3600 + MM * 60 + SS.f\<close>, computed exactly, by less
  than one millisecond.  The hours and minutes products and their sum are exact in
  binary64; the seconds are read with an error of at most \<open>2\<^sup>-\<^sup>4\<^sup>7\<close> and the last addition
  rounds by at most \<open>2\<^sup>-\<^sup>3\<^sup>5\<close>.
\<close>

theorem time_str_to_seconds_valid:
  assumes "length hh = 2" "length mm = 2" "length ss = 2" "fs \<noteq> []"
    and "list_all is_digit (hh @ mm @ ss @ fs)"
  shows "\<exists>v. time_str_to_seconds (hh @ '':'' @ mm @ '':'' @ ss @ ''.'' @ fs) = Inr (Finite v) \<and>
             \<bar>v - (of_int (int_of_digits hh) * 3600 + of_int (int_of_digits mm) * 60
                    + decimal ss fs)\<bar> < 1 / 1000"
proof -
  define H where "H = int_of_digits hh"
  define M where "M = int_of_digits mm"
  define S where "S = decimal ss fs"
  have d: "list_all is_digit hh" "list_all is_digit mm" "list_all is_digit (ss @ fs)"
    using assms(5) by simp_all
  have "0 \<le> H \<and> H < 10 ^ length hh" "0 \<le> M \<and> M < 10 ^ length mm"
    using d by (simp_all add: int_of_digits_bounds H_def M_def)
  then have HM: "0 \<le> H" "H < 100" "0 \<le> M" "M < 100" using assms(1,2) by simp_all
  have S: "0 \<le> S" "S < 100"
    using decimal_bounds [OF d(3)] assms(3) by (simp_all add: S_def)
  \<comment> \<open>the two products and their sum are exact\<close>
  have "\<bar>H * 3600\<bar> < 2 ^ 53" "\<bar>M * 60\<bar> < 2 ^ 53" "\<bar>H * 3600 + M * 60\<bar> < 2 ^ 53"
    using HM by simp_all
  then have ex: "round_double (of_int (H * 3600)) = Finite (of_int (H * 3600))"
    "round_double (of_int (M * 60)) = Finite (of_int (M * 60))"
    "round_double (of_int (H * 3600 + M * 60)) = Finite (of_int (H * 3600 + M * 60))"
    by (simp_all only: round_double_int)
  have p1: "fmul (Finite (of_int H)) (Finite 3600) = Finite (of_int (H * 3600))"
    using ex(1) by simp
  have p2: "fmul (Finite (of_int M)) (Finite 60) = Finite (of_int (M * 60))"
    using ex(2) by simp
  have sum: "fadd (Finite (of_int (H * 3600))) (Finite (of_int (M * 60)))
               = Finite (of_int (H * 3600 + M * 60))"
    using ex(3) by simp
  \<comment> \<open>the seconds are read with an error of at most \<open>2\<^sup>-\<^sup>4\<^sup>7\<close>\<close>
  have "\<bar>S\<bar> < 2 powi 7" using S by simp
  then obtain s where s: "round_double S = Finite s" "\<bar>s - S\<bar> \<le> 2 powi (7 - 54)"
    using round_double_near [of S 7] by auto
  have s47: "\<bar>s - S\<bar> \<le> 1 / 2 ^ 47"
    using s(2) by (simp add: power_int_minus_divide)
  \<comment> \<open>the last addition rounds with an error of at most \<open>2\<^sup>-\<^sup>3\<^sup>5\<close>\<close>
  define I :: rat where "I = of_int (H * 3600 + M * 60)"
  have I: "0 \<le> I" "I \<le> 362340"
  proof -
    show "0 \<le> I" using HM by (simp add: I_def)
    have "H * 3600 + M * 60 \<le> 362340" using HM by simp
    then have "(of_int (H * 3600 + M * 60) :: rat) \<le> of_int 362340"
      by (simp only: of_int_le_iff)
    then show "I \<le> 362340" by (simp add: I_def)
  qed
  have "1 / 2 ^ 47 \<le> (1::rat)" by simp
  then have "\<bar>s - S\<bar> \<le> 1" using s47 by linarith
  then have "\<bar>s\<bar> < 101" using S by linarith
  then have "\<bar>I + s\<bar> < 2 powi 19" using I by simp
  then obtain v where v: "round_double (I + s) = Finite v" "\<bar>v - (I + s)\<bar> \<le> 2 powi (19 - 54)"
    using round_double_near [of "I + s" 19] by auto
  have v35: "\<bar>v - (I + s)\<bar> \<le> 1 / 2 ^ 35"
    using v(2) by (simp add: power_int_minus_divide)
  have "\<bar>v - (I + S)\<bar> \<le> \<bar>v - (I + s)\<bar> + \<bar>s - S\<bar>" by simp
  also have "\<dots> \<le> 1 / 2 ^ 35 + 1 / 2 ^ 47" using v35 s47 by simp
  also have "\<dots> < 1 / 1000" by simp
  finally have close: "\<bar>v - (I + S)\<bar> < 1 / 1000" .
  have "seconds_of_parts (hh @ '':'' @ mm @ '':'' @ ss @ ''.'' @ fs) = Inr (Finite v)"
    unfolding seconds_of_parts_valid [OF assms] H_def [symmetric] M_def [symmetric]
      S_def [symmetric] p1 p2 sum s(1)
    using v(1) by (simp add: I_def)
  then have "time_str_to_seconds (hh @ '':'' @ mm @ '':'' @ ss @ ''.'' @ fs) = Inr (Finite v)"
    by (simp add: time_str_to_seconds_def try_except_def)
  moreover have "I + S = of_int H * 3600 + of_int M * 60 + S"
    by (simp add: I_def)
  ultimately show ?thesis
    using close unfolding H_def M_def S_def by auto
qed

text \<open>
  On \<open>"00:14:27.799"\<close> the result is the float nearest to 867.799, that is the float
  that the literal \<open>867.799\<close> denotes.
\<close>

theorem time_str_to_seconds_valid_witness:
  "time_str_to_seconds ''00:14:27.799'' = Inr (Finite (954155091072385 / 1099511627776)) \<and>
   \<bar>954155091072385 / 1099511627776 - (867799 / 1000 :: rat)\<bar> < 1 / 1000"
proof -
  have "\<exists>v. time_str_to_seconds (''00'' @ '':'' @ ''14'' @ '':'' @ ''27'' @ ''.'' @ ''799'')
              = Inr (Finite v) \<and>
            \<bar>v - (of_int (int_of_digits ''00'') * 3600 + of_int (int_of_digits ''14'') * 60
                   + decimal ''27'' ''799'')\<bar> < 1 / 1000"
    by (rule time_str_to_seconds_valid) (simp_all add: is_digit_def code_def)
  then obtain v where v: "time_str_to_seconds ''00:14:27.799'' = Inr (Finite v)"
    and close: "\<bar>v - (867799 / 1000)\<bar> < 1 / 1000"
    unfolding digits_value_867 by auto
  have "v = 954155091072385 / 1099511627776"
    using v unfolding time_867 double_867 by simp
  then show ?thesis
    using v close by simp
qed

text \<open>
  Claim C10.  Whatever the file system answers for the path, \<open>parse_ini_offset\<close>
  returns a float, and that float is zero, positive or \<open>+inf\<close>: every group of the time
  pattern is made of digits (and one point), so each component is read as a float that
  is not negative, and the products by 3600 and 60 and the two sums keep that.  (A
  digit string too long for binary64 is read as \<open>+inf\<close>, which is not negative either.)
\<close>

theorem parse_ini_offset_nonneg:
  "\<exists>v. parse_ini_offset rd ini_filepath = Inr v \<and> fnonneg v"
proof (cases "rd ini_filepath")
  case None
  then show ?thesis
    by (simp add: parse_ini_offset_def read_file_def try_except_def)
next
  case (Some content)
  then show ?thesis
    using offset_of_content_nonneg [of content]
    by (auto simp: parse_ini_offset_def read_file_def try_except_def)
qed



text \<open>
  Claim C7, as stated: a value that is not made of the components of the time pattern
  gives the zero offset.  The pattern is matched at the start of the value and need not
  reach its end, so a value that begins with a component and goes on with other text
  gives the offset of what was recognised: \<open>START_TIME="10hxyz"\<close> gives \<open>36000.0\<close>.
\<close>

theorem parse_ini_offset_trailing_text:
  "parse_ini_offset (\<lambda>p. Some (''START_TIME='' @ [dquote] @ ''10hxyz'' @ [dquote])) ''video.ts.ini''
     = Inr (Finite 36000)"
  by code_simp

text \<open>
  Claim C7, amended.  \<open>parse_ini_offset\<close> returns \<open>0.0\<close>, and raises nothing, when the
  file cannot be read, when no \<open>START_TIME = "..."\<close> assignment begins anywhere in it,
  and when the value of its first assignment, without the surrounding whitespace, does
  not begin with a component.  In the program a sidecar file that exists and cannot be
  read gives the banner of the zero offset, and the run goes on.  No other failure is
  recovered: when \<open>main\<close> ends normally, both executables were found, the probe answered
  a text that \<open>float\<close> accepts, and the detector returned a list.  The handler of
  \<open>time_str_to_seconds\<close> is never reached from the detector, since a time token that the
  progress pattern has matched is always parsed without an exception.
\<close>

theorem parse_ini_offset_lenient:
  "(rd path = None \<longrightarrow> parse_ini_offset rd path = Inr (Finite 0)) \<and>
   (rd path = Some content \<and>
      (\<forall>pre suf v. content = pre @ suf \<longrightarrow> \<not> is_assignment suf v) \<longrightarrow>
    parse_ini_offset rd path = Inr (Finite 0)) \<and>
   (rd path = Some (pre @ suf) \<and> is_assignment suf v \<and>
      (\<forall>i < length pre. \<forall>v'. \<not> is_assignment (drop i (pre @ suf)) v') \<and>
      \<not> begins_with_component (strip v) \<longrightarrow>
    parse_ini_offset rd path = Inr (Finite 0)) \<and>
   (path_exists sys (video @ ''.ini'') \<and> read_text sys (video @ ''.ini'') = None \<longrightarrow>
    offset_banner sys video = Inr (Finite 0, [OffsetDetected ''00:00:00:000''])) \<and>
   (main sys' video' probe stderr = Inr printed \<longrightarrow>
    find_ffmpeg sys' \<noteq> None \<and> find_ffprobe sys' \<noteq> None \<and>
    (\<exists>output d. probe = Inr output \<and> float_of_string (strip output) = Inr d \<and>
       (\<exists>res. returned (detect_black_frames stderr d) = Inr res))) \<and>
   (re_search time_pattern_at line = Some ts \<longrightarrow> (\<exists>x. seconds_of_parts ts = Inr x))"
proof (intro conjI impI)
  assume "rd path = None"
  then show "parse_ini_offset rd path = Inr (Finite 0)"
    by (simp add: parse_ini_offset_def read_file_def try_except_def)
next
  assume a: "rd path = Some content \<and>
      (\<forall>pre suf v. content = pre @ suf \<longrightarrow> \<not> is_assignment suf v)"
  then have "re_search start_time_at content = None"
    by (intro no_assignment_search) simp
  then have "offset_of_content content = Inr (Finite 0)"
    by (simp add: offset_of_content_def)
  then show "parse_ini_offset rd path = Inr (Finite 0)"
    using a by (intro parse_ini_offset_read) simp_all
next
  assume a: "rd path = Some (pre @ suf) \<and> is_assignment suf v \<and>
      (\<forall>i < length pre. \<forall>v'. \<not> is_assignment (drop i (pre @ suf)) v') \<and>
      \<not> begins_with_component (strip v)"
  then have a1: "rd path = Some (pre @ suf)" and a2: "is_assignment suf v"
    and a3: "\<forall>i < length pre. \<forall>v'. \<not> is_assignment (drop i (pre @ suf)) v'"
    and a4: "\<not> begins_with_component (strip v)"
    by blast+
  have "re_search start_time_at (pre @ suf) = Some v"
    using refl a2 a3 by (rule first_assignment_search)
  then have "offset_of_content (pre @ suf) = Inr (Finite 0)"
    using a4 by (rule offset_no_component)
  with a1 show "parse_ini_offset rd path = Inr (Finite 0)"
    by (rule parse_ini_offset_read)
next
  assume "path_exists sys (video @ ''.ini'') \<and> read_text sys (video @ ''.ini'') = None"
  then show "offset_banner sys video = Inr (Finite 0, [OffsetDetected ''00:00:00:000''])"
    by (simp add: offset_banner_def parse_ini_offset_def read_file_def try_except_def format_zero)
next
  assume m: "main sys' video' probe stderr = Inr printed"
  from main_Inr [OF m] show "find_ffmpeg sys' \<noteq> None" by simp
  from main_Inr [OF m] show "find_ffprobe sys' \<noteq> None" by simp
  from main_Inr [OF m] show "\<exists>output d. probe = Inr output \<and> float_of_string (strip output) = Inr d \<and>
       (\<exists>res. returned (detect_black_frames stderr d) = Inr res)" by simp
next
  assume "re_search time_pattern_at line = Some ts"
  then show "\<exists>x. seconds_of_parts ts = Inr x" by (rule time_token_parses)
qed

theorem parse_ini_offset_lenient_witness:
  "parse_ini_offset (\<lambda>p. None) ''video.ts.ini'' = Inr (Finite 0) \<and>
   parse_ini_offset (\<lambda>p. Some ''[meta]'') ''video.ts.ini'' = Inr (Finite 0) \<and>
   parse_ini_offset (\<lambda>p. Some (''START_TIME='' @ [dquote] @ ''22.5'' @ [dquote])) ''video.ts.ini''
     = Inr (Finite 0) \<and>
   offset_banner unreadable_os ''video.ts'' = Inr (Finite 0, [OffsetDetected ''00:00:00:000'']) \<and>
   find_ffmpeg demo_os \<noteq> None \<and> find_ffprobe demo_os \<noteq> None \<and>
   (\<exists>x. seconds_of_parts ''00:00:01.00'' = Inr x)"
proof -
  have none: "\<forall>pre suf v. ''[meta]'' = pre @ suf \<longrightarrow> \<not> is_assignment suf v"
  proof (intro allI impI notI)
    fix pre suf v assume e: "''[meta]'' = pre @ suf" and "is_assignment suf v"
    then have "CHR ''S'' \<in> set (pre @ suf)" using assignment_has_S by simp
    then show False unfolding e [symmetric] by simp
  qed
  have asg: "is_assignment (''START_TIME='' @ [dquote] @ ''22.5'' @ [dquote]) ''22.5''"
    unfolding is_assignment_def
    by (intro exI [of _ "[]"]) (simp add: dquote_def)
  have nc: "\<not> begins_with_component (strip ''22.5'')"
    unfolding strip_22_5 using component_letters [of "''22.5''"] by auto
  have c1: "parse_ini_offset (\<lambda>p. None) ''video.ts.ini'' = Inr (Finite 0)"
    using parse_ini_offset_lenient [of "\<lambda>p. None" "''video.ts.ini''"] by simp
  have c2: "parse_ini_offset (\<lambda>p. Some ''[meta]'') ''video.ts.ini'' = Inr (Finite 0)"
    using parse_ini_offset_lenient [of "\<lambda>p. Some ''[meta]''" "''video.ts.ini''" "''[meta]''"] none
    by simp
  have c3: "parse_ini_offset (\<lambda>p. Some (''START_TIME='' @ [dquote] @ ''22.5'' @ [dquote]))
      ''video.ts.ini'' = Inr (Finite 0)"
    using parse_ini_offset_lenient
      [of "\<lambda>p. Some ([] @ ''START_TIME='' @ [dquote] @ ''22.5'' @ [dquote])" "''video.ts.ini''" _
          "[]" "''START_TIME='' @ [dquote] @ ''22.5'' @ [dquote]" "''22.5''"] asg nc
    by simp
  have c4: "offset_banner unreadable_os ''video.ts'' = Inr (Finite 0, [OffsetDetected ''00:00:00:000''])"
    using parse_ini_offset_lenient [where sys = unreadable_os and video = "''video.ts''"]
    by (simp add: unreadable_os_def demo_os_def)
  have c5: "find_ffmpeg demo_os \<noteq> None \<and> find_ffprobe demo_os \<noteq> None"
    using parse_ini_offset_lenient [where sys' = demo_os and video' = "''video.ts''"
        and probe = "Inr ''10.0''" and stderr = "[]"] main_demo
    by simp
  have c6: "\<exists>x. seconds_of_parts ''00:00:01.00'' = Inr x"
    using parse_ini_offset_lenient [where line = "''frame=1 time=00:00:01.00 bitrate''"
        and ts = "''00:00:01.00''"] time_token_demo
    by simp
  show ?thesis using c1 c2 c3 c4 c5 c6 by simp
qed





end
